theory Spec2Isabelle
  imports Main
begin

section \<open>Python values\<close>

text \<open>
  The container is Python 2 code (\<^verbatim>\<open>itertools.ifilterfalse\<close>,
  \<^verbatim>\<open>collections.MutableMapping\<close>). Keys, dependents and the instances that
  factories produce are values of \<open>obj\<close>: a string, a list of values, or an opaque
  object known by its address (a function, a plain instance, the container itself). Strings
  and opaque objects are hashable, lists are not.
\<close>

datatype obj = Str string | PyList "obj list" | Obj nat

fun hashable :: "obj \<Rightarrow> bool" where
  "hashable (PyList _) = False"
| "hashable _ = True"

text \<open>The exceptions that the modelled code can raise; \<open>Raised\<close> is an exception of a
  caller-supplied factory.\<close>

datatype error =
    KeyError string
  | TypeError string
  | ValueError string
  | AttributeError string
  | NameError string
  | IndexError string
  | UnresolvableError string
  | Raised nat

section \<open>Scope and its variants\<close>

datatype scope_class =
  Scope | SingletonScope | ProcessScope | ThreadScope | NoneScope | NamedScope

text \<open>\<^verbatim>\<open>cls.__name__\<close>.\<close>

fun class_name :: "scope_class \<Rightarrow> string" where
  "class_name Scope = ''Scope''"
| "class_name SingletonScope = ''SingletonScope''"
| "class_name ProcessScope = ''ProcessScope''"
| "class_name ThreadScope = ''ThreadScope''"
| "class_name NoneScope = ''NoneScope''"
| "class_name NamedScope = ''NamedScope''"

definition endswith :: "string \<Rightarrow> string \<Rightarrow> bool" where
  "endswith s e = (length e \<le> length s \<and> drop (length s - length e) s = e)"

definition lower_char :: "char \<Rightarrow> char" where
  "lower_char c =
     (case map_of (zip ''ABCDEFGHIJKLMNOPQRSTUVWXYZ'' ''abcdefghijklmnopqrstuvwxyz'') c of
        None \<Rightarrow> c | Some l \<Rightarrow> l)"

definition lower :: "string \<Rightarrow> string" where
  "lower s = map lower_char s"

text \<open>
  The class property \<^verbatim>\<open>Scope.name\<close>. For a name that ends with
  \<^verbatim>\<open>remove_end\<close>, \<^verbatim>\<open>name.rsplit(remove_end, 1)[0]\<close> is the name without
  that suffix.
\<close>

definition scope_name :: "scope_class \<Rightarrow> string" where
  "scope_name c =
     (let remove_end = ''Scope'';
          name = class_name c;
          name = (if endswith name remove_end
                  then take (length name - length remove_end) name else name)
      in lower name)"

text \<open>The class attribute \<^verbatim>\<open>register\<close>.\<close>

fun register_flag :: "scope_class \<Rightarrow> bool" where
  "register_flag NamedScope = False"
| "register_flag _ = True"

text \<open>
  A scope object. \<open>instances\<close> is \<open>None\<close> when the attribute was never assigned;
  \<open>name_attr\<close> is the instance attribute \<^verbatim>\<open>name\<close>, which only
  \<^verbatim>\<open>NamedScope.__init__\<close> assigns.
\<close>

record scope_obj =
  cls :: scope_class
  name_attr :: "string option"
  instances :: "(obj \<rightharpoonup> obj) option"

text \<open>
  \<^verbatim>\<open>Scope.__init__\<close> called with no argument: \<^verbatim>\<open>instances_factory()\<close> is a new
  dict (for \<^verbatim>\<open>ThreadScope\<close> the dict that it has just put into its thread-local, assigned
  once to the ordinary attribute \<^verbatim>\<open>instances\<close>), and \<^verbatim>\<open>self.update(dict())\<close>
  stores nothing.
\<close>

definition Scope_init :: "scope_class \<Rightarrow> scope_obj" where
  "Scope_init c = \<lparr>cls = c, name_attr = None, instances = Some Map.empty\<rparr>"

text \<open>\<^verbatim>\<open>NamedScope.__init__(self, name)\<close> assigns the name and does not call the
  initialiser of \<^verbatim>\<open>Scope\<close>.\<close>

definition NamedScope_init :: "string \<Rightarrow> scope_obj" where
  "NamedScope_init name = \<lparr>cls = NamedScope, name_attr = Some name, instances = None\<rparr>"

text \<open>Calling the class with no argument, as \<^verbatim>\<open>ScopeRegistry.get\<close> does.\<close>

fun construct :: "scope_class \<Rightarrow> error + scope_obj" where
  "construct NamedScope = Inl (TypeError ''__init__() takes exactly 2 arguments (1 given)'')"
| "construct c = Inr (Scope_init c)"

fun digit :: "nat \<Rightarrow> char" where
  "digit n = (''0123456789'' ! n)"

fun str_nat :: "nat \<Rightarrow> string" where
  "str_nat n = (if n < 10 then [digit n] else str_nat (n div 10) @ [digit (n mod 10)])"

declare str_nat.simps [simp del]

text \<open>\<^verbatim>\<open>'%s'\<close> formatting of a value. The text of a string is the string; the text
  of an opaque object shows its address; the text of a list is abbreviated (a list is not
  hashable, so it is never a key of a binding).\<close>

fun py_str :: "obj \<Rightarrow> string" where
  "py_str (Str s) = s"
| "py_str (Obj n) = ''<object at '' @ str_nat n @ ''>''"
| "py_str (PyList l) = ''<list>''"

text \<open>\<^verbatim>\<open>__key_transform__\<close>; the first argument is \<^verbatim>\<open>os.getpid()\<close>.\<close>

fun key_transform :: "nat \<Rightarrow> scope_class \<Rightarrow> obj \<Rightarrow> obj" where
  "key_transform p ProcessScope key = Str (str_nat p @ ''_'' @ py_str key)"
| "key_transform p c key = key"

definition Scope_getitem :: "nat \<Rightarrow> scope_obj \<Rightarrow> obj \<Rightarrow> error + obj" where
  "Scope_getitem p s key =
     (let key = key_transform p (cls s) key in
      case instances s of
        None \<Rightarrow> Inl (AttributeError ''instances'')
      | Some m \<Rightarrow>
          if \<not> hashable key then Inl (TypeError ''unhashable type'')
          else (case m key of None \<Rightarrow> Inl (KeyError (py_str key)) | Some v \<Rightarrow> Inr v))"

text \<open>\<^verbatim>\<open>Mapping.__contains__\<close>: \<^verbatim>\<open>self[key]\<close>, where only a
  \<^verbatim>\<open>KeyError\<close> is caught.\<close>

definition Scope_contains :: "nat \<Rightarrow> scope_obj \<Rightarrow> obj \<Rightarrow> error + bool" where
  "Scope_contains p s key =
     (case Scope_getitem p s key of
        Inr v \<Rightarrow> Inr True
      | Inl (KeyError k) \<Rightarrow> Inr False
      | Inl e \<Rightarrow> Inl e)"

text \<open>\<^verbatim>\<open>__setitem__\<close>, which \<^verbatim>\<open>NoneScope\<close> overrides to return at once.\<close>

definition Scope_setitem :: "nat \<Rightarrow> scope_obj \<Rightarrow> obj \<Rightarrow> obj \<Rightarrow> error + scope_obj" where
  "Scope_setitem p s key v =
     (if cls s = NoneScope then Inr s
      else let key = key_transform p (cls s) key in
        case instances s of
          None \<Rightarrow> Inl (AttributeError ''instances'')
        | Some m \<Rightarrow>
            if \<not> hashable key then Inl (TypeError ''unhashable type'')
            else Inr (s\<lparr>instances := Some (m(key \<mapsto> v))\<rparr>))"

section \<open>The container's state\<close>

text \<open>
  What can be passed as the scope of a binding: an ordinary value (a string is a scope
  name), one of the scope classes, a class that does not subclass
  \<^verbatim>\<open>collections.MutableMapping\<close> (such as \<^verbatim>\<open>int\<close>), or a scope object, known by
  its address in the store of scope objects.
\<close>

datatype sref = Val obj | Cls scope_class | OtherCls nat | Inst nat

abbreviation Name :: "string \<Rightarrow> sref" where
  "Name s \<equiv> Val (Str s)"

text \<open>
  \<^verbatim>\<open>collections.Mapping\<close> defines \<^verbatim>\<open>__eq__\<close> and sets
  \<^verbatim>\<open>__hash__ = None\<close>, and no scope class defines \<^verbatim>\<open>__hash__\<close>: a scope
  object is not hashable. Classes are.
\<close>

fun sref_hashable :: "sref \<Rightarrow> bool" where
  "sref_hashable (Val v) = hashable v"
| "sref_hashable (Cls c) = True"
| "sref_hashable (OtherCls n) = True"
| "sref_hashable (Inst a) = False"

text \<open>
  A factory is the \<^verbatim>\<open>lambda: obj\<close> that \<^verbatim>\<open>Registry.add_instance\<close> builds, or a
  callable of the caller, known by its address. What a caller's callable does is not part of
  the container: it is a parameter \<open>call\<close>, which runs the callable on a world \<open>'w\<close>
  outside the container and returns a value or raises.
\<close>

datatype factory = Lambda obj | Callable nat

type_synonym 'w call = "nat \<Rightarrow> 'w \<Rightarrow> (error + obj) \<times> 'w"

text \<open>
  The objects of one \<^verbatim>\<open>Di\<close>: \<open>lookup\<close> is \<^verbatim>\<open>ScopeRegistry._lookup\<close>,
  \<open>factories\<close> is \<^verbatim>\<open>Registry._factories\<close>, \<open>depends_obj\<close> is
  \<^verbatim>\<open>DependencyRegistry._depends_obj\<close>. Scope objects are mutable and shared by
  reference, so they live in a store \<open>heap\<close> from addresses to objects, with
  \<open>next_addr\<close> the next unused address. \<open>pid\<close> is what \<^verbatim>\<open>os.getpid()\<close>
  returns. \<open>calls\<close> is not in the source: it records every factory invocation, in order,
  so that invocations can be counted.
\<close>

record 'w di =
  lookup :: "sref \<rightharpoonup> sref"
  factories :: "obj \<rightharpoonup> factory \<times> sref"
  depends_obj :: "obj \<rightharpoonup> obj set"
  heap :: "nat \<Rightarrow> scope_obj"
  next_addr :: nat
  pid :: nat
  world :: 'w
  calls :: "factory list"

definition alloc :: "scope_obj \<Rightarrow> 'w di \<Rightarrow> nat \<times> 'w di" where
  "alloc ob d =
     (next_addr d, d\<lparr>heap := (heap d)(next_addr d := ob), next_addr := Suc (next_addr d)\<rparr>)"

section \<open>ScopeRegistry\<close>

text \<open>
  \<^verbatim>\<open>isinstance(obj, MutableMapping) or issubclass(obj, MutableMapping)\<close>: a scope
  object is an instance; for anything that is not a class \<^verbatim>\<open>issubclass\<close> raises.
\<close>

fun is_scope :: "sref \<Rightarrow> error + bool" where
  "is_scope (Inst a) = Inr True"
| "is_scope (Cls c) = Inr True"
| "is_scope (OtherCls n) = Inr False"
| "is_scope (Val v) = Inl (TypeError ''issubclass() arg 1 must be a class'')"

text \<open>\<^verbatim>\<open>getattr(obj, 'name')\<close> of a scope class or scope object.\<close>

definition getattr_name :: "sref \<Rightarrow> 'w di \<Rightarrow> error + string" where
  "getattr_name obj d =
     (case obj of
        Cls c \<Rightarrow> Inr (scope_name c)
      | Inst a \<Rightarrow> (case name_attr (heap d a) of
                     Some n \<Rightarrow> Inr n | None \<Rightarrow> Inr (scope_name (cls (heap d a))))
      | _ \<Rightarrow> Inl (AttributeError ''name''))"

definition ScopeRegistry_add :: "sref \<Rightarrow> string option \<Rightarrow> 'w di \<Rightarrow> (error + unit) \<times> 'w di" where
  "ScopeRegistry_add obj name d =
     (case is_scope obj of
        Inl e \<Rightarrow> (Inl e, d)
      | Inr False \<Rightarrow> (Inl (ValueError ''Scope does not supply interface''), d)
      | Inr True \<Rightarrow>
          (case (case name of None \<Rightarrow> getattr_name obj d | Some n \<Rightarrow> Inr n) of
             Inl e \<Rightarrow> (Inl e, d)
           | Inr n \<Rightarrow> (Inr (), d\<lparr>lookup := (lookup d)(Name n \<mapsto> obj)\<rparr>)))"

text \<open>\<^verbatim>\<open>Scope.__subclasses__()\<close>: the direct subclasses, in the order of their
  definition.\<close>

definition subclasses :: "scope_class list" where
  "subclasses = [SingletonScope, ProcessScope, ThreadScope, NoneScope, NamedScope]"

text \<open>\<^verbatim>\<open>map(self.add, scope_classes)\<close>, which stops at the first exception.\<close>

fun add_all :: "scope_class list \<Rightarrow> 'w di \<Rightarrow> (error + unit) \<times> 'w di" where
  "add_all [] d = (Inr (), d)"
| "add_all (c # cs) d =
     (case ScopeRegistry_add (Cls c) None d of
        (Inl e, d') \<Rightarrow> (Inl e, d')
      | (Inr u, d') \<Rightarrow> add_all cs d')"

definition ScopeRegistry_build :: "'w di \<Rightarrow> (error + unit) \<times> 'w di" where
  "ScopeRegistry_build d = add_all (filter register_flag subclasses) d"

definition ScopeRegistry_resolve :: "sref \<Rightarrow> 'w di \<Rightarrow> error + sref" where
  "ScopeRegistry_resolve scope d =
     (if \<not> sref_hashable scope then Inl (TypeError ''unhashable type'')
      else
        let scope = (case lookup d scope of Some s \<Rightarrow> s | None \<Rightarrow> scope) in
        case is_scope scope of
          Inl e \<Rightarrow> Inl e
        | Inr True \<Rightarrow> Inr scope
        | Inr False \<Rightarrow> Inl (KeyError ''Scope does not exist''))"

text \<open>
  \<^verbatim>\<open>ScopeRegistry.get\<close>. \<^verbatim>\<open>resolve\<close> returns only what \<open>is_scope\<close> accepts, a
  scope class or a scope object, and of these \<^verbatim>\<open>inspect.isclass\<close> holds of the class.
\<close>

definition ScopeRegistry_get :: "sref \<Rightarrow> 'w di \<Rightarrow> (error + sref) \<times> 'w di" where
  "ScopeRegistry_get scope d =
     (case ScopeRegistry_resolve scope d of
        Inl e \<Rightarrow> (Inl e, d)
      | Inr (Cls c) \<Rightarrow>
          (case lookup d (Cls c) of
             None \<Rightarrow>
               (case construct c of
                  Inl e \<Rightarrow> (Inl e, d)
                | Inr ob \<Rightarrow>
                    let (a, d1) = alloc ob d;
                        d2 = d1\<lparr>lookup := (lookup d1)(Cls c \<mapsto> Inst a)\<rparr>
                    in (ScopeRegistry_resolve (Cls c) d2, d2))
           | Some s \<Rightarrow> (ScopeRegistry_resolve (Cls c) d, d))
      | Inr s \<Rightarrow> (Inr s, d))"

section \<open>Registry\<close>

definition Registry_add :: "obj \<Rightarrow> factory \<Rightarrow> sref \<Rightarrow> 'w di \<Rightarrow> (error + unit) \<times> 'w di" where
  "Registry_add key f scope d =
     (case ScopeRegistry_resolve scope d of
        Inl e \<Rightarrow> (Inl e, d)
      | Inr scope \<Rightarrow>
          if \<not> hashable key then (Inl (TypeError ''unhashable type''), d)
          else (Inr (), d\<lparr>factories := (factories d)(key \<mapsto> (f, scope))\<rparr>))"

definition Registry_add_instance :: "obj \<Rightarrow> obj \<Rightarrow> 'w di \<Rightarrow> (error + unit) \<times> 'w di" where
  "Registry_add_instance key ob d =
     (let scope = Name ''singleton''; f = Lambda ob in Registry_add key f scope d)"

definition Registry_get :: "obj \<Rightarrow> 'w di \<Rightarrow> error + factory \<times> sref" where
  "Registry_get key d =
     (if \<not> hashable key then Inl (TypeError ''unhashable type'')
      else case factories d key of None \<Rightarrow> Inl (KeyError (py_str key)) | Some b \<Rightarrow> Inr b)"

definition Registry_has :: "obj \<Rightarrow> 'w di \<Rightarrow> error + bool" where
  "Registry_has key d =
     (if \<not> hashable key then Inl (TypeError ''unhashable type'')
      else Inr (factories d key \<noteq> None))"

section \<open>DependencyRegistry\<close>

text \<open>
  \<^verbatim>\<open>self._depends_obj[obj].add(k)\<close> on a \<^verbatim>\<open>defaultdict(set)\<close>: the subscript
  creates the empty set of a new dependent before \<^verbatim>\<open>add\<close> hashes the key.
\<close>

fun DependencyRegistry_add :: "obj \<Rightarrow> obj list \<Rightarrow> 'w di \<Rightarrow> (error + unit) \<times> 'w di" where
  "DependencyRegistry_add ob [] d = (Inr (), d)"
| "DependencyRegistry_add ob (k # ks) d =
     (if \<not> hashable ob then (Inl (TypeError ''unhashable type''), d)
      else
        let s = (case depends_obj d ob of None \<Rightarrow> {} | Some s \<Rightarrow> s);
            d1 = d\<lparr>depends_obj := (depends_obj d)(ob \<mapsto> s)\<rparr>
        in if \<not> hashable k then (Inl (TypeError ''unhashable type''), d1)
           else DependencyRegistry_add ob ks (d1\<lparr>depends_obj := (depends_obj d1)(ob \<mapsto> insert k s)\<rparr>))"

definition DependencyRegistry_get :: "obj \<Rightarrow> 'w di \<Rightarrow> error + obj set option" where
  "DependencyRegistry_get ob d =
     (if \<not> hashable ob then Inl (TypeError ''unhashable type'')
      else Inr (depends_obj d ob))"

text \<open>
  What \<^verbatim>\<open>missing\<close> returns: \<^verbatim>\<open>None\<close>, or the iterator object that
  \<^verbatim>\<open>itertools.ifilterfalse\<close> builds. The iterator is lazy: nothing is filtered until it
  is consumed. The set it carries here is what it would yield if it were consumed at once.
\<close>

datatype missing = NoneType | Ifilterfalse "obj set"

definition DependencyRegistry_missing :: "obj \<Rightarrow> 'w di \<Rightarrow> error + missing" where
  "DependencyRegistry_missing ob d =
     (case DependencyRegistry_get ob d of
        Inl e \<Rightarrow> Inl e
      | Inr None \<Rightarrow> Inr NoneType
      | Inr (Some deps) \<Rightarrow>
          if deps = {} then Inr NoneType
          else Inr (Ifilterfalse {k \<in> deps. Registry_has k d = Inr False}))"

text \<open>
  The truth value of \<^verbatim>\<open>if missing:\<close>. An iterator object defines neither
  \<^verbatim>\<open>__nonzero__\<close> nor \<^verbatim>\<open>__len__\<close>, so it is true whatever it would yield.
\<close>

fun truth :: "missing \<Rightarrow> bool" where
  "truth NoneType = False"
| "truth (Ifilterfalse s) = True"

text \<open>\<^verbatim>\<open>'%s'\<close> formatting of it: the text of an iterator object does not show what
  it would yield (the address in it is left out).\<close>

fun missing_str :: "missing \<Rightarrow> string" where
  "missing_str NoneType = ''None''"
| "missing_str (Ifilterfalse s) = ''<itertools.ifilterfalse object>''"

section \<open>Di\<close>

text \<open>
  \<^verbatim>\<open>Di.__init__\<close> in a process \<open>p\<close> and a world \<open>w\<close>. No scope object exists
  yet; the store is a total function, and what it holds at an address that was never
  allocated is never read.
\<close>

definition Di_init :: "nat \<Rightarrow> 'w \<Rightarrow> (error + unit) \<times> 'w di" where
  "Di_init p w =
     ScopeRegistry_build
       \<lparr>lookup = Map.empty, factories = Map.empty, depends_obj = Map.empty,
        heap = (\<lambda>a. Scope_init Scope), next_addr = 0, pid = p, world = w, calls = []\<rparr>"

definition Di_scope :: "'w di \<Rightarrow> sref \<times> 'w di" where
  "Di_scope d = (let (a, d') = alloc (Scope_init Scope) d in (Inst a, d'))"

definition Di_named_scope :: "string \<Rightarrow> 'w di \<Rightarrow> sref \<times> 'w di" where
  "Di_named_scope name d = (let (a, d') = alloc (NamedScope_init name) d in (Inst a, d'))"

text \<open>
  \<^verbatim>\<open>register\<close> returns the factory, or, when no factory is given, the
  \<^verbatim>\<open>functools.partial\<close> that waits for it.
\<close>

datatype registered = Factory factory | Partial_register obj sref

definition Di_register ::
  "obj \<Rightarrow> factory option \<Rightarrow> sref \<Rightarrow> 'w di \<Rightarrow> (error + registered) \<times> 'w di" where
  "Di_register key factory scope d =
     (case factory of
        None \<Rightarrow> (Inr (Partial_register key scope), d)
      | Some f \<Rightarrow>
          (case Registry_add key f scope d of
             (Inl e, d') \<Rightarrow> (Inl e, d')
           | (Inr u, d') \<Rightarrow> (Inr (Factory f), d')))"

text \<open>Calling what \<^verbatim>\<open>register\<close> returned for a key and a scope on a factory.\<close>

definition call_partial_register ::
  "obj \<Rightarrow> sref \<Rightarrow> factory \<Rightarrow> 'w di \<Rightarrow> (error + registered) \<times> 'w di" where
  "call_partial_register key scope f d = Di_register key (Some f) scope d"

definition Di_register_instance :: "obj \<Rightarrow> obj \<Rightarrow> 'w di \<Rightarrow> (error + unit) \<times> 'w di" where
  "Di_register_instance key ob d = Registry_add_instance key ob d"

text \<open>
  \<^verbatim>\<open>_coerce_key_or_keys\<close>. The last branch iterates its argument: a list gives its
  elements, an opaque object is not iterable.
\<close>

definition coerce_key_or_keys :: "obj \<Rightarrow> obj list \<Rightarrow> error + obj list" where
  "coerce_key_or_keys key_or_keys more_keys =
     (if more_keys \<noteq> [] then Inr ([key_or_keys] @ more_keys)
      else case key_or_keys of
             Str s \<Rightarrow> Inr [key_or_keys]
           | PyList l \<Rightarrow> Inr l
           | Obj n \<Rightarrow> Inl (TypeError ''object is not iterable''))"

text \<open>
  \<^verbatim>\<open>depends_on\<close>; \<open>None\<close> for \<open>ob\<close> is the default \<^verbatim>\<open>obj=None\<close>. In that
  branch the argument of \<^verbatim>\<open>functools.partial\<close> is the name
  \<^verbatim>\<open>keys_or_keys\<close>, which is bound neither in the function nor in the module nor in the
  builtins: evaluating it raises \<^verbatim>\<open>NameError\<close>.
\<close>

definition Di_depends_on :: "obj \<Rightarrow> obj option \<Rightarrow> 'w di \<Rightarrow> (error + obj) \<times> 'w di" where
  "Di_depends_on key_or_keys ob d =
     (case ob of
        None \<Rightarrow> (Inl (NameError ''keys_or_keys''), d)
      | Some ob \<Rightarrow>
          (case coerce_key_or_keys key_or_keys [] of
             Inl e \<Rightarrow> (Inl e, d)
           | Inr keys \<Rightarrow>
               (case DependencyRegistry_add ob keys d of
                  (Inl e, d') \<Rightarrow> (Inl e, d')
                | (Inr u, d') \<Rightarrow> (Inr ob, d'))))"

definition Di_get_deps :: "obj \<Rightarrow> 'w di \<Rightarrow> error + obj set option" where
  "Di_get_deps ob d = DependencyRegistry_get ob d"

text \<open>\<^verbatim>\<open>factory()\<close>: the call is recorded, then the factory runs.\<close>

definition invoke :: "'w call \<Rightarrow> factory \<Rightarrow> 'w di \<Rightarrow> (error + obj) \<times> 'w di" where
  "invoke call f d =
     (let d1 = d\<lparr>calls := calls d @ [f]\<rparr> in
      case f of
        Lambda ob \<Rightarrow> (Inr ob, d1)
      | Callable n \<Rightarrow> (let (r, w) = call n (world d1) in (r, d1\<lparr>world := w\<rparr>)))"

text \<open>
  The three mapping operations that \<^verbatim>\<open>_resolve_one\<close> applies to what
  \<^verbatim>\<open>ScopeRegistry.get\<close> returned. On a scope object they are the methods of its class;
  a class is neither iterable nor subscriptable.
\<close>

definition contains :: "sref \<Rightarrow> obj \<Rightarrow> 'w di \<Rightarrow> error + bool" where
  "contains scope key d =
     (case scope of
        Inst a \<Rightarrow> Scope_contains (pid d) (heap d a) key
      | _ \<Rightarrow> Inl (TypeError ''argument is not iterable''))"

definition getitem :: "sref \<Rightarrow> obj \<Rightarrow> 'w di \<Rightarrow> error + obj" where
  "getitem scope key d =
     (case scope of
        Inst a \<Rightarrow> Scope_getitem (pid d) (heap d a) key
      | _ \<Rightarrow> Inl (TypeError ''object has no attribute __getitem__''))"

definition setitem :: "sref \<Rightarrow> obj \<Rightarrow> obj \<Rightarrow> 'w di \<Rightarrow> error + 'w di" where
  "setitem scope key v d =
     (case scope of
        Inst a \<Rightarrow>
          (case Scope_setitem (pid d) (heap d a) key v of
             Inl e \<Rightarrow> Inl e
           | Inr s \<Rightarrow> Inr (d\<lparr>heap := (heap d)(a := s)\<rparr>))
      | _ \<Rightarrow> Inl (TypeError ''object does not support item assignment''))"

definition unresolvable :: "obj \<Rightarrow> missing \<Rightarrow> error" where
  "unresolvable key m =
     UnresolvableError (''Missing dependencies for '' @ py_str key @ '': '' @ missing_str m)"

definition resolve_one :: "'w call \<Rightarrow> obj \<Rightarrow> 'w di \<Rightarrow> (error + obj) \<times> 'w di" where
  "resolve_one call key d =
     (case Registry_get key d of
        Inl e \<Rightarrow> (Inl e, d)
      | Inr (factory, factory_scope) \<Rightarrow>
          (case DependencyRegistry_missing key d of
             Inl e \<Rightarrow> (Inl e, d)
           | Inr missing \<Rightarrow>
               if truth missing then (Inl (unresolvable key missing), d)
               else
                 (case ScopeRegistry_get factory_scope d of
                    (Inl e, d1) \<Rightarrow> (Inl e, d1)
                  | (Inr scope, d1) \<Rightarrow>
                      (case contains scope key d1 of
                         Inl e \<Rightarrow> (Inl e, d1)
                       | Inr True \<Rightarrow>
                           (case getitem scope key d1 of
                              Inl e \<Rightarrow> (Inl e, d1)
                            | Inr value \<Rightarrow> (Inr value, d1))
                       | Inr False \<Rightarrow>
                           (case invoke call factory d1 of
                              (Inl e, d2) \<Rightarrow> (Inl e, d2)
                            | (Inr value, d2) \<Rightarrow>
                                (case setitem scope key value d2 of
                                   Inl e \<Rightarrow> (Inl e, d2)
                                 | Inr d3 \<Rightarrow> (Inr value, d3)))))))"

text \<open>\<^verbatim>\<open>list(map(self._resolve_one, keys))\<close>: one key after the other, up to the
  first exception.\<close>

fun resolve_all :: "'w call \<Rightarrow> obj list \<Rightarrow> 'w di \<Rightarrow> (error + obj list) \<times> 'w di" where
  "resolve_all call [] d = (Inr [], d)"
| "resolve_all call (k # ks) d =
     (case resolve_one call k d of
        (Inl e, d1) \<Rightarrow> (Inl e, d1)
      | (Inr v, d1) \<Rightarrow>
          (case resolve_all call ks d1 of
             (Inl e, d2) \<Rightarrow> (Inl e, d2)
           | (Inr vs, d2) \<Rightarrow> (Inr (v # vs), d2)))"

text \<open>What \<^verbatim>\<open>resolve\<close> returns: one value or a list of values, or with
  \<^verbatim>\<open>with_keys\<close> one pair or the list that \<^verbatim>\<open>zip\<close> builds.\<close>

datatype resolved =
  Value obj | Values "obj list" | Pair "obj \<times> obj" | Pairs "(obj \<times> obj) list"

definition Di_resolve ::
  "'w call \<Rightarrow> obj \<Rightarrow> obj list \<Rightarrow> bool \<Rightarrow> 'w di \<Rightarrow> (error + resolved) \<times> 'w di" where
  "Di_resolve call key_or_keys more_keys with_keys d =
     (case coerce_key_or_keys key_or_keys more_keys of
        Inl e \<Rightarrow> (Inl e, d)
      | Inr keys \<Rightarrow>
          (case resolve_all call keys d of
             (Inl e, d') \<Rightarrow> (Inl e, d')
           | (Inr ret, d') \<Rightarrow>
               if with_keys then
                 (let ret = zip keys ret in
                  if more_keys \<noteq> [] then (Inr (Pairs ret), d')
                  else (case ret of
                          [] \<Rightarrow> (Inl (IndexError ''list index out of range''), d')
                        | r # rs \<Rightarrow> (Inr (Pair r), d')))
               else
                 (if more_keys \<noteq> [] then (Inr (Values ret), d')
                  else (case ret of
                          [] \<Rightarrow> (Inl (IndexError ''list index out of range''), d')
                        | r # rs \<Rightarrow> (Inr (Value r), d')))))"

text \<open>
  The module itself, after the class definitions:
  \<^verbatim>\<open>di = Di(); di.register_instance('di', di)\<close>, where \<open>self\<close> is the address of
  the object that \<^verbatim>\<open>Di()\<close> returned.
\<close>

definition module_di :: "nat \<Rightarrow> nat \<Rightarrow> 'w \<Rightarrow> (error + unit) \<times> 'w di" where
  "module_di self p w =
     (case Di_init p w of
        (Inl e, d) \<Rightarrow> (Inl e, d)
      | (Inr u, d) \<Rightarrow> Di_register_instance (Str ''di'') (Obj self) d)"

section \<open>Using the container\<close>

text \<open>
  The states of a container that its public methods can reach from \<^verbatim>\<open>Di()\<close>, with the
  factories run by \<open>call\<close>. The world outside the container may change between two calls.
\<close>

inductive reachable :: "'w call \<Rightarrow> 'w di \<Rightarrow> bool" for call :: "'w call" where
  init: "reachable call (snd (Di_init p w))"
| outside: "reachable call d \<Longrightarrow> reachable call (d\<lparr>world := w\<rparr>)"
| scope: "reachable call d \<Longrightarrow> reachable call (snd (Di_scope d))"
| named_scope: "reachable call d \<Longrightarrow> reachable call (snd (Di_named_scope name d))"
| register: "reachable call d \<Longrightarrow> reachable call (snd (Di_register key factory sc d))"
| register_instance:
    "reachable call d \<Longrightarrow> reachable call (snd (Di_register_instance key ob d))"
| depends_on: "reachable call d \<Longrightarrow> reachable call (snd (Di_depends_on key_or_keys dep d))"
| resolve:
    "reachable call d \<Longrightarrow>
     reachable call (snd (Di_resolve call key_or_keys more_keys with_keys d))"

text \<open>\<open>n\<close> consecutive calls \<^verbatim>\<open>resolve(key)\<close>, each result kept, whether a value or
  an exception.\<close>

fun resolve_times ::
  "'w call \<Rightarrow> nat \<Rightarrow> obj \<Rightarrow> 'w di \<Rightarrow> (error + resolved) list \<times> 'w di" where
  "resolve_times call 0 key d = ([], d)"
| "resolve_times call (Suc n) key d =
     (let (r, d1) = Di_resolve call key [] False d;
          (rs, d2) = resolve_times call n key d1
      in (r # rs, d2))"

text \<open>The dependency keys declared for a dependent; none when it has no entry.\<close>

definition declared :: "obj \<Rightarrow> 'w di \<Rightarrow> obj set" where
  "declared ob d = (case depends_obj d ob of None \<Rightarrow> {} | Some deps \<Rightarrow> deps)"

text \<open>The scope object of class \<open>c\<close> exists and \<^verbatim>\<open>key in scope\<close> holds of it.\<close>

definition cached :: "scope_class \<Rightarrow> obj \<Rightarrow> 'w di \<Rightarrow> bool" where
  "cached c key d =
     (case lookup d (Cls c) of None \<Rightarrow> False | Some s \<Rightarrow> contains s key d = Inr True)"

text \<open>The state after \<^verbatim>\<open>ScopeRegistry.get\<close> has built the scope object of a class
  that had none.\<close>

definition instantiated :: "scope_class \<Rightarrow> 'w di \<Rightarrow> 'w di" where
  "instantiated c d =
     d\<lparr>heap := (heap d)(next_addr d := Scope_init c), next_addr := Suc (next_addr d),
       lookup := (lookup d)(Cls c \<mapsto> Inst (next_addr d))\<rparr>"

text \<open>
  What holds of the scope registry in every reachable state: the names
  \<^verbatim>\<open>'singleton'\<close> and \<^verbatim>\<open>'none'\<close> stand for their classes; a scope object in the table is stored under its own class, was built
  by \<open>Scope_init\<close>, and is empty when it is a \<^verbatim>\<open>NoneScope\<close>; nothing but a scope
  object is stored under a class.
\<close>

definition scopes_ok :: "'w di \<Rightarrow> bool" where
  "scopes_ok d \<longleftrightarrow>
     lookup d (Name ''singleton'') = Some (Cls SingletonScope) \<and>
     lookup d (Name ''none'') = Some (Cls NoneScope) \<and>
     (\<forall>x a. lookup d x = Some (Inst a) \<longrightarrow>
        (\<exists>c m. x = Cls c \<and> a < next_addr d \<and> cls (heap d a) = c \<and>
               instances (heap d a) = Some m \<and> (c = NoneScope \<longrightarrow> m = Map.empty))) \<and>
     (\<forall>c s. lookup d (Cls c) = Some s \<longrightarrow> (\<exists>a. s = Inst a))"

subsection \<open>Example runs\<close>

text \<open>A factory of the caller that returns a new object at every call: the world is the
  address of the next object.\<close>

definition new_object :: "nat call" where
  "new_object n w = (Inr (Obj w), Suc w)"

text \<open>\<^verbatim>\<open>Di()\<close> in process 1.\<close>

definition empty_di :: "nat di" where
  "empty_di = snd (Di_init 1 0)"

text \<open>\<^verbatim>\<open>register('a', f1); register('K', f2); depends_on('a', 'K')\<close>: the one
  dependency of \<^verbatim>\<open>'K'\<close> is bound.\<close>

definition deps_bound :: "nat di" where
  "deps_bound =
     snd (Di_depends_on (Str ''a'') (Some (Str ''K''))
       (snd (Di_register (Str ''K'') (Some (Callable 2)) (Name ''singleton'')
         (snd (Di_register (Str ''a'') (Some (Callable 1)) (Name ''singleton'') empty_di)))))"

text \<open>\<^verbatim>\<open>register('a', f1); register('b', f2)\<close>, both in the singleton scope.\<close>

definition two_bound :: "nat di" where
  "two_bound =
     snd (Di_register (Str ''b'') (Some (Callable 2)) (Name ''singleton'')
       (snd (Di_register (Str ''a'') (Some (Callable 1)) (Name ''singleton'') empty_di)))"

text \<open>\<^verbatim>\<open>register('k', f1); resolve('k'); register('k', f2)\<close>: the key is bound
  again after it has been resolved.\<close>

definition rebound :: "nat di" where
  "rebound =
     snd (Di_register (Str ''k'') (Some (Callable 2)) (Name ''singleton'')
       (snd (Di_resolve new_object (Str ''k'') [] False
         (snd (Di_register (Str ''k'') (Some (Callable 1)) (Name ''singleton'') empty_di)))))"

text \<open>\<^verbatim>\<open>register('x', f1); resolve('x'); register_instance('x', obj)\<close>, where
  \<^verbatim>\<open>obj\<close> is the object at address 9.\<close>

definition instance_rebound :: "nat di" where
  "instance_rebound =
     snd (Di_register_instance (Str ''x'') (Obj 9)
       (snd (Di_resolve new_object (Str ''x'') [] False
         (snd (Di_register (Str ''x'') (Some (Callable 1)) (Name ''singleton'') empty_di)))))"

text \<open>\<^verbatim>\<open>register('n', f1, 'none')\<close>.\<close>

definition none_bound :: "nat di" where
  "none_bound = snd (Di_register (Str ''n'') (Some (Callable 1)) (Name ''none'') empty_di)"

section \<open>The scope registry in reachable states\<close>

lemma Di_init_state:
  "Di_init p w =
     (Inr (),
      \<lparr>lookup = [Name ''singleton'' \<mapsto> Cls SingletonScope, Name ''process'' \<mapsto> Cls ProcessScope,
                 Name ''thread'' \<mapsto> Cls ThreadScope, Name ''none'' \<mapsto> Cls NoneScope],
       factories = Map.empty, depends_obj = Map.empty,
       heap = (\<lambda>a. Scope_init Scope), next_addr = 0, pid = p, world = w, calls = []\<rparr>)"
  by (simp add: Di_init_def ScopeRegistry_build_def subclasses_def ScopeRegistry_add_def
      getattr_name_def scope_name_def endswith_def lower_def lower_char_def)

lemma scopes_ok_init: "scopes_ok (snd (Di_init p w))"
  by (simp add: Di_init_state scopes_ok_def)

lemma get_unfold:
  "ScopeRegistry_get s d =
     (case ScopeRegistry_resolve s d of
        Inl e \<Rightarrow> (Inl e, d)
      | Inr (Cls c) \<Rightarrow>
          (case lookup d (Cls c) of
             None \<Rightarrow> (if c = NamedScope
                      then (Inl (TypeError ''__init__() takes exactly 2 arguments (1 given)''), d)
                      else (Inr (Inst (next_addr d)), instantiated c d))
           | Some u \<Rightarrow> (ScopeRegistry_resolve (Cls c) d, d))
      | Inr t \<Rightarrow> (Inr t, d))"
proof (cases "ScopeRegistry_resolve s d")
  case (Inl e)
  then show ?thesis by (simp add: ScopeRegistry_get_def)
next
  case (Inr t)
  show ?thesis
  proof (cases t)
    case (Cls c)
    show ?thesis
    proof (cases "lookup d (Cls c)")
      case None
      then show ?thesis using Inr Cls
        by (cases c)
          (simp_all add: ScopeRegistry_get_def ScopeRegistry_resolve_def alloc_def instantiated_def)
    next
      case (Some u)
      then show ?thesis using Inr Cls by (simp add: ScopeRegistry_get_def)
    qed
  qed (use Inr in \<open>simp_all add: ScopeRegistry_get_def\<close>)
qed

lemma get_cases:
  assumes "ScopeRegistry_get s d = (r, d')"
  shows "d' = d \<or>
         (\<exists>c. ScopeRegistry_resolve s d = Inr (Cls c) \<and> lookup d (Cls c) = None \<and>
              c \<noteq> NamedScope \<and> r = Inr (Inst (next_addr d)) \<and> d' = instantiated c d)"
  using assms unfolding get_unfold
  by (auto split: sum.splits sref.splits option.splits if_splits)

lemma get_live:
  assumes "lookup d (Cls c) = Some (Inst a)"
  shows "ScopeRegistry_get (Cls c) d = (Inr (Inst a), d)"
  using assms by (simp add: get_unfold ScopeRegistry_resolve_def)

lemma get_new:
  assumes "lookup d (Cls c) = None" "c \<noteq> NamedScope"
  shows "ScopeRegistry_get (Cls c) d = (Inr (Inst (next_addr d)), instantiated c d)"
  using assms by (simp add: get_unfold ScopeRegistry_resolve_def)

lemma resolve_returns:
  assumes "ScopeRegistry_resolve s d = Inr t"
  shows "(t = s \<and> lookup d s = None \<or> lookup d s = Some t) \<and> is_scope t = Inr True \<and> sref_hashable s"
  using assms
  by (auto simp: ScopeRegistry_resolve_def Let_def split: if_splits option.splits sum.splits bool.splits)

lemma resolve_live:
  assumes "scopes_ok d" "ScopeRegistry_resolve s d = Inr (Inst a)"
  shows "\<exists>c. s = Cls c \<and> lookup d (Cls c) = Some (Inst a)"
proof -
  from resolve_returns[OF assms(2)] have "lookup d s = Some (Inst a)" by auto
  with assms(1) show ?thesis by (auto simp: scopes_ok_def)
qed

lemma get_returns_live:
  assumes "scopes_ok d" "ScopeRegistry_get s d = (Inr t, d1)"
  shows "\<exists>c a. t = Inst a \<and> lookup d1 (Cls c) = Some (Inst a)"
proof (cases "ScopeRegistry_resolve s d")
  case (Inl e)
  then show ?thesis using assms(2) by (simp add: get_unfold)
next
  case (Inr u)
  note ru = resolve_returns[OF Inr]
  show ?thesis
  proof (cases u)
    case (Cls c)
    show ?thesis
    proof (cases "lookup d (Cls c)")
      case None
      then show ?thesis using assms(2) Inr Cls
        by (auto simp: get_unfold instantiated_def split: if_splits)
    next
      case (Some v)
      then have "ScopeRegistry_resolve (Cls c) d = Inr t" "d1 = d"
        using assms(2) Inr Cls by (auto simp: get_unfold)
      moreover from this(1) have "is_scope t = Inr True" "lookup d (Cls c) = Some t"
        using resolve_returns[of "Cls c" d t] Some by auto
      moreover from assms(1) this(2) obtain a where "t = Inst a"
        unfolding scopes_ok_def by blast
      ultimately show ?thesis by blast
    qed
  next
    case (Inst a)
    then have "t = Inst a" "d1 = d" using assms(2) Inr by (auto simp: get_unfold)
    then show ?thesis using resolve_live[OF assms(1)] Inr Inst by auto
  next
    case (Val v)
    then show ?thesis using ru by simp
  next
    case (OtherCls n)
    then show ?thesis using ru by simp
  qed
qed

lemma scopes_ok_instantiated:
  assumes "scopes_ok d" "lookup d (Cls c) = None"
  shows "scopes_ok (instantiated c d)"
  using assms unfolding scopes_ok_def instantiated_def
  by (auto simp: Scope_init_def less_Suc_eq dest: less_imp_neq)

lemma get_scopes_ok:
  assumes "scopes_ok d"
  shows "scopes_ok (snd (ScopeRegistry_get s d))"
  using get_cases[of s d "fst (ScopeRegistry_get s d)" "snd (ScopeRegistry_get s d)"] assms
  by (auto simp: scopes_ok_instantiated)


lemma invoke_tables [simp]:
  "lookup (snd (invoke call f d)) = lookup d"
  "heap (snd (invoke call f d)) = heap d"
  "next_addr (snd (invoke call f d)) = next_addr d"
  "factories (snd (invoke call f d)) = factories d"
  "depends_obj (snd (invoke call f d)) = depends_obj d"
  "pid (snd (invoke call f d)) = pid d"
  "calls (snd (invoke call f d)) = calls d @ [f]"
  by (simp_all add: invoke_def Let_def split: factory.splits prod.splits)

lemma invoke_scopes_ok [simp]: "scopes_ok (snd (invoke call f d)) = scopes_ok d"
  by (simp add: scopes_ok_def)

lemma setitem_cases:
  assumes "setitem t key v d = Inr d'"
  shows "\<exists>a. t = Inst a \<and>
           (cls (heap d a) = NoneScope \<and> d' = d\<lparr>heap := (heap d)(a := heap d a)\<rparr> \<or>
            cls (heap d a) \<noteq> NoneScope \<and>
            (\<exists>m. instances (heap d a) = Some m \<and>
                 hashable (key_transform (pid d) (cls (heap d a)) key) \<and>
                 d' = d\<lparr>heap := (heap d)(a := (heap d a)
                        \<lparr>instances := Some (m(key_transform (pid d) (cls (heap d a)) key \<mapsto> v))\<rparr>)\<rparr>))"
  using assms
  by (auto simp: setitem_def Scope_setitem_def Let_def
      split: sref.splits sum.splits option.splits if_splits)

lemma setitem_tables:
  assumes "setitem t key v d = Inr d'"
  shows "lookup d' = lookup d" "next_addr d' = next_addr d" "factories d' = factories d"
    "depends_obj d' = depends_obj d" "pid d' = pid d" "world d' = world d" "calls d' = calls d"
  using setitem_cases[OF assms] by auto

lemma setitem_scopes_ok:
  assumes "scopes_ok d" "lookup d (Cls c) = Some (Inst a)" "setitem (Inst a) key v d = Inr d'"
  shows "scopes_ok d'"
proof -
  from assms(1,2) have c: "cls (heap d a) = c" by (auto simp: scopes_ok_def)
  from setitem_cases[OF assms(3)] show ?thesis
  proof (elim exE conjE disjE)
    fix b assume "Inst a = Inst b" "d' = d\<lparr>heap := (heap d)(b := heap d b)\<rparr>"
    then show ?thesis using assms(1) by (simp add: scopes_ok_def)
  next
    fix b m
    assume b: "Inst a = Inst b" and n: "cls (heap d b) \<noteq> NoneScope"
      and d': "d' = d\<lparr>heap := (heap d)(b := (heap d b)
                        \<lparr>instances := Some (m(key_transform (pid d) (cls (heap d b)) key \<mapsto> v))\<rparr>)\<rparr>"
    show ?thesis using assms(1) n unfolding scopes_ok_def d'
      by (auto simp: fun_upd_def)
  qed
qed

lemma Scope_contains_eq:
  assumes "instances s = Some m" "hashable key"
  shows "Scope_contains p s key = Inr (m (key_transform p (cls s) key) \<noteq> None)"
  using assms
  by (cases "cls s") (auto simp: Scope_contains_def Scope_getitem_def Let_def split: option.splits)

lemma Scope_getitem_eq:
  assumes "instances s = Some m" "hashable key" "m (key_transform p (cls s) key) = Some v"
  shows "Scope_getitem p s key = Inr v"
  using assms
  by (cases "cls s") (auto simp: Scope_getitem_def Let_def split: option.splits)

lemma resolve_one_scopes_ok:
  assumes "scopes_ok d"
  shows "scopes_ok (snd (resolve_one call key d))"
proof (cases "Registry_get key d")
  case (Inl e)
  then show ?thesis using assms by (simp add: resolve_one_def)
next
  case (Inr b)
  obtain f s where b: "b = (f, s)" by (cases b)
  show ?thesis
  proof (cases "ScopeRegistry_get s d")
    case (Pair r d1)
    have ok1: "scopes_ok d1" using get_scopes_ok[OF assms, of s] Pair by simp
    show ?thesis
    proof (cases r)
      case (Inl e)
      then show ?thesis using Inr b Pair ok1 assms
        by (simp add: resolve_one_def split: sum.splits)
    next
      case (Inr t)
      from get_returns_live[OF assms] Pair Inr obtain c a
        where t: "t = Inst a" and live: "lookup d1 (Cls c) = Some (Inst a)" by blast
      obtain ri d2 where iv: "invoke call f d1 = (ri, d2)" by (cases "invoke call f d1")
      have ok2: "scopes_ok d2" and live2: "lookup d2 (Cls c) = Some (Inst a)"
        using invoke_scopes_ok[of call f d1] invoke_tables(1)[of call f d1] iv ok1 live
        by simp_all
      have "\<And>v d3. setitem t key v d2 = Inr d3 \<Longrightarrow> scopes_ok d3"
        using setitem_scopes_ok[OF ok2 live2] t by simp
      then show ?thesis using \<open>Registry_get key d = Inr b\<close> b Pair Inr ok1 ok2 iv assms
        by (auto simp: resolve_one_def split: sum.splits bool.splits prod.splits)
    qed
  qed
qed


lemma resolve_all_scopes_ok:
  "scopes_ok d \<Longrightarrow> scopes_ok (snd (resolve_all call keys d))"
proof (induction keys arbitrary: d)
  case Nil
  then show ?case by simp
next
  case (Cons k ks)
  obtain r d1 where r: "resolve_one call k d = (r, d1)" by (cases "resolve_one call k d")
  then have ok1: "scopes_ok d1" using resolve_one_scopes_ok[OF Cons.prems, of call k] by simp
  obtain rs d2 where rs: "resolve_all call ks d1 = (rs, d2)" by (cases "resolve_all call ks d1")
  then have "scopes_ok d2" using Cons.IH[OF ok1] by simp
  then show ?case using r rs ok1 by (simp split: sum.splits)
qed

lemma Di_resolve_snd:
  "snd (Di_resolve call key_or_keys more_keys with_keys d) = d \<or>
   (\<exists>keys. snd (Di_resolve call key_or_keys more_keys with_keys d) = snd (resolve_all call keys d))"
proof (cases "coerce_key_or_keys key_or_keys more_keys")
  case (Inl e)
  then show ?thesis by (simp add: Di_resolve_def)
next
  case (Inr keys)
  obtain r d1 where r: "resolve_all call keys d = (r, d1)" by (cases "resolve_all call keys d")
  have "snd (Di_resolve call key_or_keys more_keys with_keys d) = d1"
    using Inr r by (simp add: Di_resolve_def Let_def split: sum.splits list.splits)
  then show ?thesis using r by (metis snd_conv)
qed

lemma Di_resolve_scopes_ok:
  assumes "scopes_ok d"
  shows "scopes_ok (snd (Di_resolve call key_or_keys more_keys with_keys d))"
  using Di_resolve_snd[of call key_or_keys more_keys with_keys d] assms
  by (auto simp: resolve_all_scopes_ok)

lemma Registry_add_cases:
  "Registry_add key f sc d = (r, d') \<Longrightarrow>
     (\<exists>e. r = Inl e \<and> d' = d) \<or>
     (\<exists>t. ScopeRegistry_resolve sc d = Inr t \<and> hashable key \<and> r = Inr () \<and>
          d' = d\<lparr>factories := (factories d)(key \<mapsto> (f, t))\<rparr>)"
  by (auto simp: Registry_add_def split: sum.splits if_splits)

lemma Registry_add_scopes_ok:
  assumes "scopes_ok d"
  shows "scopes_ok (snd (Registry_add key f sc d))"
  using Registry_add_cases[of key f sc d "fst (Registry_add key f sc d)" "snd (Registry_add key f sc d)"] assms
  by (auto simp: scopes_ok_def)

lemma Di_register_scopes_ok:
  assumes "scopes_ok d"
  shows "scopes_ok (snd (Di_register key factory sc d))"
proof (cases factory)
  case None
  then show ?thesis using assms by (simp add: Di_register_def)
next
  case (Some f)
  have "snd (Di_register key (Some f) sc d) = snd (Registry_add key f sc d)"
    by (simp add: Di_register_def split: prod.splits sum.splits)
  then show ?thesis using Some Registry_add_scopes_ok[OF assms] by simp
qed

lemma Di_register_instance_scopes_ok:
  assumes "scopes_ok d"
  shows "scopes_ok (snd (Di_register_instance key ob d))"
  using Registry_add_scopes_ok[OF assms]
  by (simp add: Di_register_instance_def Registry_add_instance_def)

lemma DependencyRegistry_add_tables:
  "lookup (snd (DependencyRegistry_add ob keys d)) = lookup d \<and>
   heap (snd (DependencyRegistry_add ob keys d)) = heap d \<and>
   next_addr (snd (DependencyRegistry_add ob keys d)) = next_addr d \<and>
   factories (snd (DependencyRegistry_add ob keys d)) = factories d"
  by (induction ob keys d rule: DependencyRegistry_add.induct) (simp_all add: Let_def)

lemma Di_depends_on_tables:
  "lookup (snd (Di_depends_on key_or_keys dep d)) = lookup d \<and>
   heap (snd (Di_depends_on key_or_keys dep d)) = heap d \<and>
   next_addr (snd (Di_depends_on key_or_keys dep d)) = next_addr d \<and>
   factories (snd (Di_depends_on key_or_keys dep d)) = factories d"
proof (cases dep)
  case None
  then show ?thesis by (simp add: Di_depends_on_def)
next
  case (Some ob)
  show ?thesis
  proof (cases "coerce_key_or_keys key_or_keys []")
    case (Inl e)
    then show ?thesis using Some by (simp add: Di_depends_on_def)
  next
    case (Inr keys)
    have "snd (Di_depends_on key_or_keys (Some ob) d) = snd (DependencyRegistry_add ob keys d)"
      using Inr by (simp add: Di_depends_on_def split: prod.splits sum.splits)
    then show ?thesis using Some DependencyRegistry_add_tables[of ob keys d] by simp
  qed
qed

lemma Di_depends_on_scopes_ok:
  assumes "scopes_ok d"
  shows "scopes_ok (snd (Di_depends_on key_or_keys dep d))"
  using assms Di_depends_on_tables[of key_or_keys dep d] by (simp add: scopes_ok_def)

lemma alloc_scopes_ok:
  assumes "scopes_ok d"
  shows "scopes_ok (snd (alloc ob d))"
  using assms unfolding scopes_ok_def alloc_def
  by (auto simp: less_Suc_eq dest: less_imp_neq)

lemma reachable_scopes_ok:
  assumes "reachable call d"
  shows "scopes_ok d"
  using assms
proof induction
  case (init p w)
  show ?case by (rule scopes_ok_init)
next
  case (outside d w)
  then show ?case by (simp add: scopes_ok_def)
next
  case (scope d)
  then show ?case using alloc_scopes_ok[of d "Scope_init Scope"]
    by (auto simp: Di_scope_def split: prod.splits)
next
  case (named_scope d name)
  then show ?case using alloc_scopes_ok[of d "NamedScope_init name"]
    by (auto simp: Di_named_scope_def split: prod.splits)
next
  case (register d key factory sc)
  then show ?case by (simp add: Di_register_scopes_ok)
next
  case (register_instance d key ob)
  then show ?case by (simp add: Di_register_instance_scopes_ok)
next
  case (depends_on d key_or_keys dep)
  then show ?case by (simp add: Di_depends_on_scopes_ok)
next
  case (resolve d key_or_keys more_keys with_keys)
  then show ?case by (simp add: Di_resolve_scopes_ok)
qed

section \<open>What a resolution changes\<close>

lemma get_tables [simp]:
  "factories (snd (ScopeRegistry_get s d)) = factories d"
  "depends_obj (snd (ScopeRegistry_get s d)) = depends_obj d"
  "pid (snd (ScopeRegistry_get s d)) = pid d"
  "world (snd (ScopeRegistry_get s d)) = world d"
  "calls (snd (ScopeRegistry_get s d)) = calls d"
  using get_cases[of s d "fst (ScopeRegistry_get s d)" "snd (ScopeRegistry_get s d)"]
  by (auto simp: instantiated_def)

lemma resolve_one_steps:
  assumes "Registry_get key d = Inr (f, s)" "ScopeRegistry_get s d = (r, d1)"
    "invoke call f d1 = (ri, d2)"
  shows "snd (resolve_one call key d) = d \<or> snd (resolve_one call key d) = d1 \<or>
         snd (resolve_one call key d) = d2 \<or>
         (\<exists>t v d3. r = Inr t \<and> setitem t key v d2 = Inr d3 \<and> snd (resolve_one call key d) = d3)"
  using assms
  by (auto simp: resolve_one_def split: sum.splits bool.splits)

lemma resolve_one_unbound:
  assumes "Registry_get key d = Inl e"
  shows "resolve_one call key d = (Inl e, d)"
  using assms by (simp add: resolve_one_def)

lemma resolve_one_tables:
  "factories (snd (resolve_one call key d)) = factories d \<and>
   depends_obj (snd (resolve_one call key d)) = depends_obj d \<and>
   pid (snd (resolve_one call key d)) = pid d"
proof (cases "Registry_get key d")
  case (Inl e)
  then show ?thesis by (simp add: resolve_one_unbound)
next
  case (Inr b)
  obtain f s where b: "Registry_get key d = Inr (f, s)" using Inr by (cases b) simp
  obtain r d1 where g: "ScopeRegistry_get s d = (r, d1)" by (cases "ScopeRegistry_get s d")
  obtain ri d2 where i: "invoke call f d1 = (ri, d2)" by (cases "invoke call f d1")
  have t1: "factories d1 = factories d" "depends_obj d1 = depends_obj d" "pid d1 = pid d"
    using get_tables[of s d] g by simp_all
  have t2: "factories d2 = factories d" "depends_obj d2 = depends_obj d" "pid d2 = pid d"
    using invoke_tables[of call f d1] i t1 by simp_all
  from resolve_one_steps[OF b g i] show ?thesis
    using t1 t2 by (auto dest: setitem_tables)
qed

lemma resolve_all_tables:
  "factories (snd (resolve_all call keys d)) = factories d \<and>
   depends_obj (snd (resolve_all call keys d)) = depends_obj d \<and>
   pid (snd (resolve_all call keys d)) = pid d"
proof (induction keys arbitrary: d)
  case Nil
  show ?case by simp
next
  case (Cons k ks)
  obtain r d1 where r: "resolve_one call k d = (r, d1)" by (cases "resolve_one call k d")
  obtain rs d2 where rs: "resolve_all call ks d1 = (rs, d2)" by (cases "resolve_all call ks d1")
  show ?case using r rs resolve_one_tables[of call k d] Cons.IH[of d1]
    by (simp split: sum.splits)
qed

lemma Di_resolve_tables:
  "factories (snd (Di_resolve call key_or_keys more_keys with_keys d)) = factories d \<and>
   depends_obj (snd (Di_resolve call key_or_keys more_keys with_keys d)) = depends_obj d"
  using Di_resolve_snd[of call key_or_keys more_keys with_keys d]
  by (auto simp: resolve_all_tables)

lemma Di_resolve_single:
  "Di_resolve call (Str k) [] with_keys d =
     (case resolve_one call (Str k) d of
        (Inl e, d') \<Rightarrow> (Inl e, d')
      | (Inr v, d') \<Rightarrow> (Inr (if with_keys then Pair (Str k, v) else Value v), d'))"
  by (simp add: Di_resolve_def coerce_key_or_keys_def split: prod.splits sum.splits)

lemma Di_resolve_single_snd:
  "snd (Di_resolve call (Str k) [] with_keys d) = snd (resolve_one call (Str k) d)"
  by (simp add: Di_resolve_single split: prod.splits sum.splits)

lemma setitem_inst:
  assumes "setitem t key v d = Inr d'"
  shows "\<exists>b. t = Inst b"
  using setitem_cases[OF assms] by blast

lemma setitem_heap_other:
  assumes "setitem (Inst b) key v d = Inr d'" "a \<noteq> b"
  shows "heap d' a = heap d a"
  using setitem_cases[OF assms(1)] assms(2) by auto

lemma resolve_one_heap:
  assumes "Registry_get key d = Inr (f, s)" "fst (ScopeRegistry_get s d) \<noteq> Inr (Inst a)"
  shows "heap (snd (resolve_one call key d)) a = heap d a"
proof -
  obtain r d1 where g: "ScopeRegistry_get s d = (r, d1)" by (cases "ScopeRegistry_get s d")
  obtain ri d2 where i: "invoke call f d1 = (ri, d2)" by (cases "invoke call f d1")
  have r: "r \<noteq> Inr (Inst a)" using assms(2) g by simp
  have h1: "heap d1 a = heap d a"
    using get_cases[OF g] r by (auto simp: instantiated_def split: if_splits)
  have h2: "heap d2 = heap d1" using invoke_tables(2)[of call f d1] i by simp
  have h3: "heap d3 a = heap d2 a" if "r = Inr t" "setitem t key v d2 = Inr d3" for t v d3
  proof -
    from setitem_inst[OF that(2)] obtain b where b: "t = Inst b" by blast
    then have "a \<noteq> b" using that(1) r by auto
    then show ?thesis using setitem_heap_other that(2) b by blast
  qed
  from resolve_one_steps[OF assms(1) g i] show ?thesis using h1 h2 h3 by auto
qed

lemma resolve_one_lookup:
  assumes "Registry_get key d = Inr (f, s)"
    "\<not> (ScopeRegistry_resolve s d = Inr x \<and> lookup d x = None)"
  shows "lookup (snd (resolve_one call key d)) x = lookup d x"
proof -
  obtain r d1 where g: "ScopeRegistry_get s d = (r, d1)" by (cases "ScopeRegistry_get s d")
  obtain ri d2 where i: "invoke call f d1 = (ri, d2)" by (cases "invoke call f d1")
  have h1: "lookup d1 x = lookup d x" using get_cases[OF g] assms(2) by (auto simp: instantiated_def)
  have h2: "lookup d2 = lookup d1" using invoke_tables(1)[of call f d1] i by simp
  from resolve_one_steps[OF assms(1) g i] show ?thesis
    using h1 h2 by (auto dest: setitem_tables(1))
qed

lemma resolve_one_object:
  assumes "a < next_addr d"
  shows "cls (heap (snd (resolve_one call key d)) a) = cls (heap d a) \<and>
         name_attr (heap (snd (resolve_one call key d)) a) = name_attr (heap d a)"
proof (cases "Registry_get key d")
  case (Inl e)
  then show ?thesis by (simp add: resolve_one_unbound)
next
  case (Inr b)
  obtain f s where b: "Registry_get key d = Inr (f, s)" using Inr by (cases b) simp
  obtain r d1 where g: "ScopeRegistry_get s d = (r, d1)" by (cases "ScopeRegistry_get s d")
  obtain ri d2 where i: "invoke call f d1 = (ri, d2)" by (cases "invoke call f d1")
  have h1: "heap d1 a = heap d a" using get_cases[OF g] assms by (auto simp: instantiated_def)
  have h2: "heap d2 = heap d1" using invoke_tables(2)[of call f d1] i by simp
  have h3: "cls (heap d3 a) = cls (heap d2 a) \<and> name_attr (heap d3 a) = name_attr (heap d2 a)"
    if "setitem t key v d2 = Inr d3" for t v d3
    using setitem_cases[OF that] by auto
  from resolve_one_steps[OF b g i] show ?thesis using h1 h2 h3 by auto
qed

subsection \<open>One resolution in a known scope\<close>

lemma missing_none:
  assumes "hashable key" "declared key d = {}"
  shows "DependencyRegistry_missing key d = Inr NoneType"
  using assms
  by (auto simp: DependencyRegistry_missing_def DependencyRegistry_get_def declared_def
      split: option.splits)

lemma hashable_key_transform:
  "hashable key \<Longrightarrow> hashable (key_transform p c key)"
  by (cases c) simp_all

lemma resolve_one_hit:
  assumes "hashable key" "factories d key = Some (f, Cls c)" "declared key d = {}"
    "lookup d (Cls c) = Some (Inst a)" "cls (heap d a) = c" "instances (heap d a) = Some m"
    "m (key_transform (pid d) c key) = Some v"
  shows "resolve_one call key d = (Inr v, d)"
proof -
  have k: "hashable (key_transform (pid d) c key)" using assms(1) by (rule hashable_key_transform)
  have "contains (Inst a) key d = Inr True" "getitem (Inst a) key d = Inr v"
    using assms k by (simp_all add: contains_def getitem_def Scope_contains_def Scope_getitem_def)
  then show ?thesis
    using assms(1,2,4) missing_none[OF assms(1,3)] get_live[OF assms(4)]
    by (simp add: resolve_one_def Registry_get_def)
qed

lemma resolve_one_miss:
  assumes "hashable key" "factories d key = Some (f, Cls c)" "declared key d = {}"
    "lookup d (Cls c) = Some (Inst a)" "cls (heap d a) = c" "instances (heap d a) = Some m"
    "m (key_transform (pid d) c key) = None" "invoke call f d = (Inr v, d2)"
  shows "resolve_one call key d =
     (Inr v, if c = NoneScope then d2
             else d2\<lparr>heap := (heap d)(a := (heap d a)
                      \<lparr>instances := Some (m(key_transform (pid d) c key \<mapsto> v))\<rparr>)\<rparr>)"
proof -
  have k: "hashable (key_transform (pid d) c key)" using assms(1) by (rule hashable_key_transform)
  have c: "contains (Inst a) key d = Inr False"
    using assms k by (simp add: contains_def Scope_contains_def Scope_getitem_def)
  have t: "heap d2 = heap d" "pid d2 = pid d"
    using invoke_tables(2,6)[of call f d] assms(8) by simp_all
  have s: "setitem (Inst a) key v d2 =
     Inr (if c = NoneScope then d2
          else d2\<lparr>heap := (heap d)(a := (heap d a)
                   \<lparr>instances := Some (m(key_transform (pid d) c key \<mapsto> v))\<rparr>)\<rparr>)"
    using assms(5,6) k t by (simp add: setitem_def Scope_setitem_def)
  show ?thesis
    using assms(1,2,4,8) missing_none[OF assms(1,3)] get_live[OF assms(4)] c s
    by (simp add: resolve_one_def Registry_get_def)
qed

lemma resolve_one_instantiated:
  assumes "hashable key" "factories d key = Some (f, Cls c)" "declared key d = {}"
    "lookup d (Cls c) = None" "c \<noteq> NamedScope"
  shows "resolve_one call key d = resolve_one call key (instantiated c d)"
proof -
  have l: "lookup (instantiated c d) (Cls c) = Some (Inst (next_addr d))"
    by (simp add: instantiated_def)
  have "declared key (instantiated c d) = {}" using assms(3) by (simp add: declared_def instantiated_def)
  then have m: "DependencyRegistry_missing key (instantiated c d) = Inr NoneType"
    using assms(1) by (rule missing_none[rotated])
  show ?thesis
    using assms(1,2) missing_none[OF assms(1,3)] m get_new[OF assms(4,5)] get_live[OF l]
    by (simp add: resolve_one_def Registry_get_def instantiated_def)
qed

lemma invoke_fst_world:
  assumes "world d' = world d"
  shows "fst (invoke call f d') = fst (invoke call f d)"
  using assms by (simp add: invoke_def Let_def split: factory.splits prod.splits)

lemma singleton_live_twice:
  assumes "factories d (Str k) = Some (f, Cls SingletonScope)" "declared (Str k) d = {}"
    "lookup d (Cls SingletonScope) = Some (Inst a)" "cls (heap d a) = SingletonScope"
    "instances (heap d a) = Some m" "m (Str k) = None" "fst (invoke call f d) = Inr v"
  shows "\<exists>d2. resolve_one call (Str k) d = (Inr v, d2) \<and>
              resolve_one call (Str k) d2 = (Inr v, d2) \<and> calls d2 = calls d @ [f]"
proof -
  obtain d1 where i: "invoke call f d = (Inr v, d1)"
    using assms(7) by (cases "invoke call f d") simp
  define d2 where "d2 = d1\<lparr>heap := (heap d)(a := (heap d a)\<lparr>instances := Some (m(Str k \<mapsto> v))\<rparr>)\<rparr>"
  have t: "lookup d1 = lookup d" "factories d1 = factories d" "depends_obj d1 = depends_obj d"
    "pid d1 = pid d" "calls d1 = calls d @ [f]"
    using invoke_tables[of call f d] i by simp_all
  have first: "resolve_one call (Str k) d = (Inr v, d2)"
    using resolve_one_miss[of "Str k" d f SingletonScope a m call v d1] assms i
    by (simp add: d2_def)
  have second: "resolve_one call (Str k) d2 = (Inr v, d2)"
  proof (rule resolve_one_hit[of "Str k" d2 f SingletonScope a "m(Str k \<mapsto> v)" v])
    show "declared (Str k) d2 = {}" using assms(2) t by (simp add: declared_def d2_def)
  qed (use assms t in \<open>simp_all add: d2_def\<close>)
  have "calls d2 = calls d @ [f]" using t by (simp add: d2_def)
  then show ?thesis using first second by blast
qed

lemma singleton_twice:
  assumes "scopes_ok d" "factories d (Str k) = Some (f, Cls SingletonScope)"
    "declared (Str k) d = {}" "\<not> cached SingletonScope (Str k) d"
    "fst (invoke call f d) = Inr v"
  shows "\<exists>d2. resolve_one call (Str k) d = (Inr v, d2) \<and>
              resolve_one call (Str k) d2 = (Inr v, d2) \<and> calls d2 = calls d @ [f]"
proof (cases "lookup d (Cls SingletonScope)")
  case None
  let ?d = "instantiated SingletonScope d"
  have r: "resolve_one call (Str k) d = resolve_one call (Str k) ?d"
    using resolve_one_instantiated[of "Str k" d f SingletonScope call] assms(2,3) None by simp
  have w: "fst (invoke call f ?d) = Inr v"
    using invoke_fst_world[of ?d d call f] assms(5) by (simp add: instantiated_def)
  have "\<exists>d2. resolve_one call (Str k) ?d = (Inr v, d2) \<and>
              resolve_one call (Str k) d2 = (Inr v, d2) \<and> calls d2 = calls ?d @ [f]"
  proof (rule singleton_live_twice[of ?d k f "next_addr d" Map.empty call v])
    show "declared (Str k) ?d = {}" using assms(3) by (simp add: declared_def instantiated_def)
  qed (use assms(2) w in \<open>simp_all add: instantiated_def Scope_init_def\<close>)
  then show ?thesis using r by (simp add: instantiated_def)
next
  case (Some s)
  with assms(1) obtain a where s: "s = Inst a" unfolding scopes_ok_def by blast
  with assms(1) Some obtain m where
    o: "cls (heap d a) = SingletonScope" "instances (heap d a) = Some m"
    unfolding scopes_ok_def by blast
  have "contains (Inst a) (Str k) d = Inr (m (Str k) \<noteq> None)"
    using o Scope_contains_eq[of "heap d a" m "Str k" "pid d"] by (simp add: contains_def)
  then have "m (Str k) = None" using assms(4) Some s by (auto simp: cached_def)
  then show ?thesis using singleton_live_twice[of d k f a m call v] assms Some s o by simp
qed

lemma Di_register_name:
  assumes "lookup d (Name n) = Some (Cls c)" "hashable key"
  shows "Di_register key (Some f) (Name n) d =
     (Inr (Factory f), d\<lparr>factories := (factories d)(key \<mapsto> (f, Cls c))\<rparr>)"
  using assms by (simp add: Di_register_def Registry_add_def ScopeRegistry_resolve_def)

lemma scopes_ok_factories [simp]: "scopes_ok (d\<lparr>factories := t\<rparr>) = scopes_ok d"
  by (simp add: scopes_ok_def)

lemma cached_factories [simp]: "cached c key (d\<lparr>factories := t\<rparr>) = cached c key d"
  by (simp add: cached_def contains_def split: option.splits sref.splits)

lemma declared_factories [simp]: "declared key (d\<lparr>factories := t\<rparr>) = declared key d"
  by (simp add: declared_def)

lemma resolve_one_none:
  assumes "hashable key" "factories d key = Some (f, Cls NoneScope)" "declared key d = {}"
    "lookup d (Cls NoneScope) = Some (Inst a)" "cls (heap d a) = NoneScope"
    "instances (heap d a) = Some Map.empty"
  shows "resolve_one call key d = invoke call f d"
proof -
  have c: "contains (Inst a) key d = Inr False"
    using assms by (simp add: contains_def Scope_contains_def Scope_getitem_def)
  obtain ri d2 where i: "invoke call f d = (ri, d2)" by (cases "invoke call f d")
  have t: "heap d2 = heap d" using invoke_tables(2)[of call f d] i by simp
  have s: "setitem (Inst a) key v d2 = Inr d2" for v
    using assms(5) t by (simp add: setitem_def Scope_setitem_def)
  show ?thesis
    using assms(1,2) missing_none[OF assms(1,3)] get_live[OF assms(4)] c s i
    by (simp add: resolve_one_def Registry_get_def split: sum.splits)
qed

lemma none_resolve:
  assumes "scopes_ok d" "factories d (Str k) = Some (f, Cls NoneScope)" "declared (Str k) d = {}"
  shows "fst (resolve_one call (Str k) d) = fst (invoke call f d) \<and>
         calls (snd (resolve_one call (Str k) d)) = calls d @ [f]"
proof (cases "lookup d (Cls NoneScope)")
  case None
  let ?d = "instantiated NoneScope d"
  have r: "resolve_one call (Str k) d = resolve_one call (Str k) ?d"
    using resolve_one_instantiated[of "Str k" d f NoneScope call] assms(2,3) None by simp
  have "resolve_one call (Str k) ?d = invoke call f ?d"
  proof (rule resolve_one_none[of "Str k" ?d f "next_addr d" call])
    show "declared (Str k) ?d = {}" using assms(3) by (simp add: declared_def instantiated_def)
  qed (use assms(2) in \<open>simp_all add: instantiated_def Scope_init_def\<close>)
  moreover have "fst (invoke call f ?d) = fst (invoke call f d)"
    by (rule invoke_fst_world) (simp add: instantiated_def)
  ultimately show ?thesis using r by (simp add: instantiated_def)
next
  case (Some s)
  with assms(1) obtain a where s: "s = Inst a" unfolding scopes_ok_def by blast
  with assms(1) Some obtain m where
    o: "cls (heap d a) = NoneScope" "instances (heap d a) = Some m" "m = Map.empty"
    unfolding scopes_ok_def by blast
  have "resolve_one call (Str k) d = invoke call f d"
    using resolve_one_none[of "Str k" d f a call] assms(2,3) Some s o by simp
  then show ?thesis by simp
qed

lemma none_resolve_times:
  assumes "reachable call d" "factories d (Str k) = Some (f, Cls NoneScope)"
    "declared (Str k) d = {}"
  shows "length (fst (resolve_times call n (Str k) d)) = n \<and>
         calls (snd (resolve_times call n (Str k) d)) = calls d @ replicate n f"
  using assms
proof (induction n arbitrary: d)
  case 0
  show ?case by simp
next
  case (Suc n)
  obtain r d1 where r: "Di_resolve call (Str k) [] False d = (r, d1)"
    by (cases "Di_resolve call (Str k) [] False d")
  obtain rs d2 where rs: "resolve_times call n (Str k) d1 = (rs, d2)"
    by (cases "resolve_times call n (Str k) d1")
  have d1: "d1 = snd (Di_resolve call (Str k) [] False d)" using r by simp
  have reach: "reachable call d1" unfolding d1 using Suc.prems(1) by (rule reachable.resolve)
  have tab: "factories d1 = factories d" "depends_obj d1 = depends_obj d"
    unfolding d1 by (simp_all add: Di_resolve_tables)
  have c: "calls d1 = calls d @ [f]"
    using none_resolve[OF reachable_scopes_ok[OF Suc.prems(1)] Suc.prems(2,3), of call]
    by (simp add: d1 Di_resolve_single_snd)
  have "length rs = n \<and> calls d2 = calls d1 @ replicate n f"
    using Suc.IH[OF reach] Suc.prems(2,3) tab rs by (simp add: declared_def)
  then show ?case using r rs c by (simp add: replicate_app_Cons_same)
qed

section \<open>Registration, requests and declared dependencies in general\<close>

text \<open>A scope that \<open>is_scope\<close> does not accept, and that is not the name of one that it
  accepts, is refused at registration, and nothing is bound.\<close>

lemma register_refused:
  assumes "is_scope sc \<noteq> Inr True" "\<forall>t. lookup d sc = Some t \<longrightarrow> is_scope t \<noteq> Inr True"
  shows "\<exists>e. Di_register key (Some f) sc d = (Inl e, d)"
proof (cases "lookup d sc")
  case None
  then show ?thesis using assms(1)
    by (cases "is_scope sc")
      (auto simp: Di_register_def Registry_add_def ScopeRegistry_resolve_def split: bool.splits)
next
  case (Some t)
  then have "is_scope t \<noteq> Inr True" using assms(2) by simp
  then show ?thesis using Some
    by (cases "is_scope t")
      (auto simp: Di_register_def Registry_add_def ScopeRegistry_resolve_def split: bool.splits)
qed

text \<open>A scope class, and a name that stands for one, are accepted.\<close>

lemma register_class:
  assumes "hashable key" "lookup d (Cls c) = None"
  shows "Di_register key (Some f) (Cls c) d =
     (Inr (Factory f), d\<lparr>factories := (factories d)(key \<mapsto> (f, Cls c))\<rparr>)"
  using assms by (simp add: Di_register_def Registry_add_def ScopeRegistry_resolve_def)

lemma register_none:
  assumes "reachable call d" "hashable key"
  shows "Di_register key (Some f) (Name ''none'') d =
     (Inr (Factory f), d\<lparr>factories := (factories d)(key \<mapsto> (f, Cls NoneScope))\<rparr>)"
  using reachable_scopes_ok[OF assms(1)] assms(2)
  by (simp add: Di_register_name scopes_ok_def)

text \<open>The decorator form of \<^verbatim>\<open>register\<close> ends in the same state as the direct
  form.\<close>

lemma register_two_steps:
  "Di_register key None sc d = (Inr (Partial_register key sc), d) \<and>
   call_partial_register key sc f d = Di_register key (Some f) sc d"
  by (simp add: Di_register_def call_partial_register_def)

text \<open>A bound key with a declared dependency raises the unresolvable-dependency error,
  whether the dependencies are bound or not, and the container is unchanged.\<close>

lemma declared_dependencies_raise:
  assumes "hashable key" "factories d key = Some b" "declared key d \<noteq> {}"
  shows "resolve_one call key d =
     (Inl (unresolvable key
            (Ifilterfalse {k \<in> declared key d. Registry_has k d = Inr False})), d)"
  using assms
  by (cases b)
    (auto simp: resolve_one_def Registry_get_def DependencyRegistry_missing_def
      DependencyRegistry_get_def declared_def split: option.splits)

text \<open>The shape of what \<^verbatim>\<open>resolve\<close> returns: with several arguments one value per
  key, with one list argument one value.\<close>

lemma resolve_all_length:
  "resolve_all call keys d = (Inr vs, d') \<Longrightarrow> length vs = length keys"
proof (induction keys arbitrary: d vs)
  case Nil
  then show ?case by simp
next
  case (Cons k ks)
  then show ?case by (auto split: prod.splits sum.splits)
qed

lemma resolve_several_arguments:
  assumes "more_keys \<noteq> []" "Di_resolve call key more_keys False d = (Inr r, d')"
  shows "\<exists>vs. r = Values vs \<and> length vs = Suc (length more_keys)"
  using assms
  by (auto simp: Di_resolve_def coerce_key_or_keys_def split: prod.splits sum.splits
      dest: resolve_all_length)

lemma resolve_one_list:
  assumes "Di_resolve call (PyList keys) [] False d = (Inr r, d')"
  shows "\<exists>v. r = Value v"
  using assms
  by (auto simp: Di_resolve_def coerce_key_or_keys_def split: prod.splits sum.splits list.splits)

section \<open>The example runs, evaluated\<close>

lemmas run_defs =
  Di_register_def Registry_add_def ScopeRegistry_resolve_def Di_depends_on_def
  coerce_key_or_keys_def Di_resolve_def resolve_one_def Registry_get_def Registry_has_def
  DependencyRegistry_missing_def DependencyRegistry_get_def get_unfold instantiated_def
  contains_def getitem_def setitem_def Scope_contains_def Scope_getitem_def Scope_setitem_def
  Scope_init_def invoke_def new_object_def unresolvable_def Di_register_instance_def
  Registry_add_instance_def Let_def

lemma empty_di_eq:
  "empty_di =
      \<lparr>lookup = [Name ''singleton'' \<mapsto> Cls SingletonScope, Name ''process'' \<mapsto> Cls ProcessScope,
                 Name ''thread'' \<mapsto> Cls ThreadScope, Name ''none'' \<mapsto> Cls NoneScope],
       factories = Map.empty, depends_obj = Map.empty,
       heap = (\<lambda>a. Scope_init Scope), next_addr = 0, pid = 1, world = 0, calls = []\<rparr>"
  by (simp add: empty_di_def Di_init_state)

lemma deps_bound_eq:
  "deps_bound =
     empty_di\<lparr>factories := [Str ''a'' \<mapsto> (Callable 1, Cls SingletonScope),
                             Str ''K'' \<mapsto> (Callable 2, Cls SingletonScope)],
              depends_obj := [Str ''K'' \<mapsto> {Str ''a''}]\<rparr>"
  by (simp add: deps_bound_def empty_di_eq run_defs)

lemma two_bound_eq:
  "two_bound =
     empty_di\<lparr>factories := [Str ''a'' \<mapsto> (Callable 1, Cls SingletonScope),
                             Str ''b'' \<mapsto> (Callable 2, Cls SingletonScope)]\<rparr>"
  by (simp add: two_bound_def empty_di_eq run_defs)

lemma rebound_eq:
  "rebound =
     empty_di\<lparr>lookup := (lookup empty_di)(Cls SingletonScope \<mapsto> Inst 0),
              factories := [Str ''k'' \<mapsto> (Callable 2, Cls SingletonScope)],
              heap := (heap empty_di)
                (0 := \<lparr>cls = SingletonScope, name_attr = None,
                       instances = Some [Str ''k'' \<mapsto> Obj 0]\<rparr>),
              next_addr := 1, world := 1, calls := [Callable 1]\<rparr>"
  by (simp add: rebound_def empty_di_eq run_defs)

lemma instance_rebound_eq:
  "instance_rebound =
     empty_di\<lparr>lookup := (lookup empty_di)(Cls SingletonScope \<mapsto> Inst 0),
              factories := [Str ''x'' \<mapsto> (Lambda (Obj 9), Cls SingletonScope)],
              heap := (heap empty_di)
                (0 := \<lparr>cls = SingletonScope, name_attr = None,
                       instances = Some [Str ''x'' \<mapsto> Obj 0]\<rparr>),
              next_addr := 1, world := 1, calls := [Callable 1]\<rparr>"
  by (simp add: instance_rebound_def empty_di_eq run_defs)

lemma none_bound_eq:
  "none_bound = empty_di\<lparr>factories := [Str ''n'' \<mapsto> (Callable 1, Cls NoneScope)]\<rparr>"
  by (simp add: none_bound_def empty_di_eq run_defs)

section \<open>The claims\<close>

text \<open>
  C1. Claimed: a bound key whose declared dependency keys are all bound resolves without the
  unresolvable-dependency error, and with a dependency key that is not bound the error names
  the key and the missing keys. In the code \<^verbatim>\<open>missing\<close> is an iterator object, which is
  true whatever it would yield: after \<^verbatim>\<open>register('a', f1); register('K', f2);
  depends_on('a', 'K')\<close> the one dependency of \<^verbatim>\<open>'K'\<close> is bound, and
  \<^verbatim>\<open>resolve('K')\<close> raises \<^verbatim>\<open>UnresolvableError\<close> all the same, with a message that
  shows the iterator object and no key but \<^verbatim>\<open>'K'\<close>.
\<close>

theorem bound_dependency_still_unresolvable: "Registry_has (Str ''a'') deps_bound = Inr True \<and>
   declared (Str ''K'') deps_bound = {Str ''a''} \<and>
   Di_resolve new_object (Str ''K'') [] False deps_bound =
     (Inl (UnresolvableError ''Missing dependencies for K: <itertools.ifilterfalse object>''),
      deps_bound)"
  by (simp add: deps_bound_eq empty_di_eq declared_def run_defs)

text \<open>
  C2. Claimed: a request for several keys returns one value per key, in order, whether the
  keys come as one list or as several arguments. In the code \<^verbatim>\<open>resolve\<close> returns the
  list only when there are several arguments: for the one list
  \<^verbatim>\<open>['a', 'b', 'a']\<close> every key is resolved and the value of the first alone is
  returned, while \<^verbatim>\<open>resolve('a', 'b', 'a')\<close> returns the three values, the first and
  the third the same object.
\<close>

theorem list_request_returns_first_only: "fst (Di_resolve new_object (PyList [Str ''a'', Str ''b'', Str ''a'']) [] False two_bound)
     = Inr (Value (Obj 0)) \<and>
   fst (Di_resolve new_object (Str ''a'') [Str ''b'', Str ''a''] False two_bound)
     = Inr (Values [Obj 0, Obj 1, Obj 0])"
  by (simp add: two_bound_eq empty_di_eq declared_def run_defs)

text \<open>
  C3. Claimed: for a key bound by \<^verbatim>\<open>register(K, f, 'singleton')\<close> with no declared
  dependencies, two consecutive calls \<^verbatim>\<open>resolve(K)\<close> return the identical instance and
  \<^verbatim>\<open>f\<close> is invoked exactly once. That holds when the singleton scope holds no
  instance for the key at the time of the registration and the call of \<^verbatim>\<open>f\<close> returns:
  the registration returns the factory, both resolutions return the value \<open>v\<close> of that one
  call, the second leaves the container as it is, and the record of invocations has grown by
  \<open>f\<close> alone.
\<close>

theorem singleton_resolved_once:
  assumes "reachable call d" "declared (Str k) d = {}" "\<not> cached SingletonScope (Str k) d"
    "fst (invoke call f d) = Inr v"
  shows "\<exists>d1 d2. Di_register (Str k) (Some f) (Name ''singleton'') d = (Inr (Factory f), d1) \<and>
              Di_resolve call (Str k) [] False d1 = (Inr (Value v), d2) \<and>
              Di_resolve call (Str k) [] False d2 = (Inr (Value v), d2) \<and>
              calls d2 = calls d @ [f]"
proof -
  let ?d1 = "d\<lparr>factories := (factories d)(Str k \<mapsto> (f, Cls SingletonScope))\<rparr>"
  have ok: "scopes_ok d" using assms(1) by (rule reachable_scopes_ok)
  then have "lookup d (Name ''singleton'') = Some (Cls SingletonScope)" by (simp add: scopes_ok_def)
  then have reg: "Di_register (Str k) (Some f) (Name ''singleton'') d = (Inr (Factory f), ?d1)"
    by (simp add: Di_register_name)
  have w: "fst (invoke call f ?d1) = Inr v"
    using invoke_fst_world[of ?d1 d call f] assms(4) by simp
  from singleton_twice[of ?d1 k f call v] obtain d2 where
    "resolve_one call (Str k) ?d1 = (Inr v, d2)" "resolve_one call (Str k) d2 = (Inr v, d2)"
    "calls d2 = calls ?d1 @ [f]"
    using ok assms(2,3) w by auto
  then show ?thesis using reg by (auto simp: Di_resolve_single)
qed

text \<open>The theorem at work: in the example run \<open>rebound\<close> the singleton scope exists and
  holds the key \<^verbatim>\<open>'k'\<close>; another key \<^verbatim>\<open>'j'\<close> is registered and resolved twice.\<close>

theorem singleton_resolved_once_witness:
  "reachable new_object rebound \<and> declared (Str ''j'') rebound = {} \<and>
   \<not> cached SingletonScope (Str ''j'') rebound \<and>
   fst (invoke new_object (Callable 3) rebound) = Inr (Obj 1) \<and>
   (\<exists>d1 d2. Di_register (Str ''j'') (Some (Callable 3)) (Name ''singleton'') rebound
               = (Inr (Factory (Callable 3)), d1) \<and>
            Di_resolve new_object (Str ''j'') [] False d1 = (Inr (Value (Obj 1)), d2) \<and>
            Di_resolve new_object (Str ''j'') [] False d2 = (Inr (Value (Obj 1)), d2) \<and>
            calls d2 = calls rebound @ [Callable 3])"
proof -
  have h1: "reachable new_object rebound"
    by (simp add: rebound_def empty_di_def reachable.intros)
  have h2: "declared (Str ''j'') rebound = {}"
    by (simp add: rebound_eq empty_di_eq declared_def)
  have h3: "\<not> cached SingletonScope (Str ''j'') rebound"
    by (simp add: rebound_eq empty_di_eq cached_def run_defs)
  have h4: "fst (invoke new_object (Callable 3) rebound) = Inr (Obj 1)"
    by (simp add: rebound_eq empty_di_eq run_defs)
  show ?thesis
    using h1 h2 h3 h4 singleton_resolved_once[OF h1 h2 h3 h4] by blast
qed

text \<open>
  The claim as it was stated fails when the key was resolved under an earlier binding: after
  \<^verbatim>\<open>register('k', f1); resolve('k'); register('k', f2)\<close> the key is bound to
  \<^verbatim>\<open>f2\<close> in the singleton scope and has no declared dependencies, both resolutions
  return the instance that \<^verbatim>\<open>f1\<close> built, and \<^verbatim>\<open>f2\<close> is never invoked.
\<close>

theorem rebound_factory_not_invoked:
  "factories rebound (Str ''k'') = Some (Callable 2, Cls SingletonScope) \<and>
   declared (Str ''k'') rebound = {} \<and>
   fst (Di_resolve new_object (Str ''k'') [] False rebound) = Inr (Value (Obj 0)) \<and>
   fst (Di_resolve new_object (Str ''k'') [] False
          (snd (Di_resolve new_object (Str ''k'') [] False rebound))) = Inr (Value (Obj 0)) \<and>
   calls (snd (Di_resolve new_object (Str ''k'') [] False
          (snd (Di_resolve new_object (Str ''k'') [] False rebound)))) = calls rebound \<and>
   Callable 2 \<notin> set (calls rebound)"
  by (simp add: rebound_eq empty_di_eq declared_def run_defs)

text \<open>
  C4. Claimed: \<^verbatim>\<open>depends_on\<close> with the dependent left out returns a decorator that
  records the keys for its target and returns the target. In the code that call raises
  \<^verbatim>\<open>NameError\<close> for every argument, and the container is unchanged.
\<close>

theorem depends_on_without_target_raises:
  "Di_depends_on key_or_keys None d = (Inl (NameError ''keys_or_keys''), d)"
  by (simp add: Di_depends_on_def)

text \<open>
  C5. For a key bound in the None scope, as \<^verbatim>\<open>register(K, f, 'none')\<close> binds it, with
  no declared dependencies, in a reachable state: \<open>n\<close> consecutive calls
  \<^verbatim>\<open>resolve(K)\<close> give \<open>n\<close> results and invoke the factory exactly \<open>n\<close> times (the
  record of invocations grows by \<open>n\<close> entries, all of them the factory of the binding), and
  a resolution returns what this call of the factory returns or raises, never a stored value.
\<close>

theorem none_scope_invokes_every_time:
  assumes "reachable call d" "factories d (Str k) = Some (f, Cls NoneScope)"
    "declared (Str k) d = {}"
  shows "length (fst (resolve_times call n (Str k) d)) = n \<and>
         calls (snd (resolve_times call n (Str k) d)) = calls d @ replicate n f \<and>
         fst (Di_resolve call (Str k) [] False d) =
           (case fst (invoke call f d) of Inl e \<Rightarrow> Inl e | Inr v \<Rightarrow> Inr (Value v))"
proof -
  have "fst (resolve_one call (Str k) d) = fst (invoke call f d)"
    using none_resolve[OF reachable_scopes_ok[OF assms(1)] assms(2,3), of call] by simp
  then have "fst (Di_resolve call (Str k) [] False d) =
      (case fst (invoke call f d) of Inl e \<Rightarrow> Inl e | Inr v \<Rightarrow> Inr (Value v))"
    by (cases "resolve_one call (Str k) d") (auto simp: Di_resolve_single split: sum.splits)
  then show ?thesis using none_resolve_times[OF assms, of n] by simp
qed

text \<open>The theorem at work: three resolutions of a key in the None scope, whose factory
  builds a new object each time, return three distinct objects.\<close>

theorem none_scope_invokes_every_time_witness:
  "reachable new_object none_bound \<and>
   factories none_bound (Str ''n'') = Some (Callable 1, Cls NoneScope) \<and>
   declared (Str ''n'') none_bound = {} \<and>
   fst (resolve_times new_object 3 (Str ''n'') none_bound) =
     [Inr (Value (Obj 0)), Inr (Value (Obj 1)), Inr (Value (Obj 2))] \<and>
   calls (snd (resolve_times new_object 3 (Str ''n'') none_bound)) =
     [Callable 1, Callable 1, Callable 1]"
proof -
  have h1: "reachable new_object none_bound"
    by (simp add: none_bound_def empty_di_def reachable.intros)
  have h2: "factories none_bound (Str ''n'') = Some (Callable 1, Cls NoneScope)"
    by (simp add: none_bound_eq)
  have h3: "declared (Str ''n'') none_bound = {}"
    by (simp add: none_bound_eq empty_di_eq declared_def)
  have h4: "fst (resolve_times new_object 3 (Str ''n'') none_bound) =
     [Inr (Value (Obj 0)), Inr (Value (Obj 1)), Inr (Value (Obj 2))]"
    by (simp add: none_bound_eq empty_di_eq numeral_3_eq_3 run_defs)
  have h5: "calls none_bound = []" by (simp add: none_bound_eq empty_di_eq)
  show ?thesis
    using h1 h2 h3 h4 h5 none_scope_invokes_every_time[OF h1 h2 h3, of 3] by (simp add: numeral_3_eq_3)
qed

text \<open>
  C6. Claimed: \<^verbatim>\<open>register\<close> fails at once for a scope that is neither a registered
  name nor a class or object with the mapping interface, and succeeds for every valid scope. A
  scope object has the mapping interface, yet \<^verbatim>\<open>register\<close> with a scope object
  raises \<^verbatim>\<open>TypeError\<close> in every state: \<^verbatim>\<open>scope in self._lookup\<close> hashes it,
  and a scope object is not hashable. No binding is added.
\<close>

theorem register_scope_object_raises:
  "is_scope (Inst a) = Inr True \<and>
   Di_register key (Some f) (Inst a) d = (Inl (TypeError ''unhashable type''), d)"
  by (simp add: Di_register_def Registry_add_def ScopeRegistry_resolve_def)

text \<open>
  C7. Claimed: \<^verbatim>\<open>register_instance(K, obj)\<close> binds the key in the singleton scope and
  the following \<^verbatim>\<open>resolve(K)\<close> returns \<^verbatim>\<open>obj\<close>. That holds when the key has no
  declared dependencies and the singleton scope holds no instance for it: the key is bound to
  \<^verbatim>\<open>lambda: obj\<close> in the singleton scope, and the resolution returns the object.
\<close>

theorem register_instance_resolves_to_it:
  assumes "reachable call d" "declared (Str k) d = {}" "\<not> cached SingletonScope (Str k) d"
  shows "Di_register_instance (Str k) ob d =
           (Inr (), d\<lparr>factories := (factories d)(Str k \<mapsto> (Lambda ob, Cls SingletonScope))\<rparr>) \<and>
         fst (Di_resolve call (Str k) [] False (snd (Di_register_instance (Str k) ob d)))
           = Inr (Value ob)"
proof -
  let ?d1 = "d\<lparr>factories := (factories d)(Str k \<mapsto> (Lambda ob, Cls SingletonScope))\<rparr>"
  have ok: "scopes_ok d" using assms(1) by (rule reachable_scopes_ok)
  then have "lookup d (Name ''singleton'') = Some (Cls SingletonScope)" by (simp add: scopes_ok_def)
  then have r: "Di_register_instance (Str k) ob d = (Inr (), ?d1)"
    by (simp add: Di_register_instance_def Registry_add_instance_def Registry_add_def
        ScopeRegistry_resolve_def)
  have w: "fst (invoke call (Lambda ob) ?d1) = Inr ob" by (simp add: invoke_def)
  from singleton_twice[of ?d1 k "Lambda ob" call ob] obtain d2 where
    "resolve_one call (Str k) ?d1 = (Inr ob, d2)"
    using ok assms(2,3) w by auto
  then show ?thesis using r by (simp add: Di_resolve_single)
qed

text \<open>The theorem at work, in the example run \<open>rebound\<close> with another key.\<close>

theorem register_instance_resolves_to_it_witness:
  "reachable new_object rebound \<and> declared (Str ''j'') rebound = {} \<and>
   \<not> cached SingletonScope (Str ''j'') rebound \<and>
   fst (Di_register_instance (Str ''j'') (Obj 9) rebound) = Inr () \<and>
   fst (Di_resolve new_object (Str ''j'') [] False
          (snd (Di_register_instance (Str ''j'') (Obj 9) rebound))) = Inr (Value (Obj 9))"
proof -
  have h1: "reachable new_object rebound"
    by (simp add: rebound_def empty_di_def reachable.intros)
  have h2: "declared (Str ''j'') rebound = {}"
    by (simp add: rebound_eq empty_di_eq declared_def)
  have h3: "\<not> cached SingletonScope (Str ''j'') rebound"
    by (simp add: rebound_eq empty_di_eq cached_def run_defs)
  note t = register_instance_resolves_to_it[OF h1 h2 h3, of "Obj 9"]
  have "fst (Di_register_instance (Str ''j'') (Obj 9) rebound) = Inr ()"
    using t by simp
  moreover have "fst (Di_resolve new_object (Str ''j'') [] False
          (snd (Di_register_instance (Str ''j'') (Obj 9) rebound))) = Inr (Value (Obj 9))"
    using t by blast
  ultimately show ?thesis using h1 h2 h3 by blast
qed

text \<open>
  The claim as it was stated fails when the key was resolved under an earlier binding: after
  \<^verbatim>\<open>register('x', f1); resolve('x'); register_instance('x', obj)\<close> the registration
  has succeeded, the key is bound to \<^verbatim>\<open>lambda: obj\<close> in the singleton scope, and
  \<^verbatim>\<open>resolve('x')\<close> returns the object at address 0 that \<^verbatim>\<open>f1\<close> built, not
  \<^verbatim>\<open>obj\<close>, which is at address 9.
\<close>

theorem instance_rebound_resolves_stale:
  "fst (Di_register_instance (Str ''x'') (Obj 9)
         (snd (Di_resolve new_object (Str ''x'') [] False
           (snd (Di_register (Str ''x'') (Some (Callable 1)) (Name ''singleton'') empty_di)))))
     = Inr () \<and>
   factories instance_rebound (Str ''x'') = Some (Lambda (Obj 9), Cls SingletonScope) \<and>
   declared (Str ''x'') instance_rebound = {} \<and>
   fst (Di_resolve new_object (Str ''x'') [] False instance_rebound) = Inr (Value (Obj 0))"
  by (simp add: instance_rebound_eq empty_di_eq declared_def run_defs)

text \<open>
  C8. Claimed: the membership test, the read and the write of a \<^verbatim>\<open>NamedScope\<close> made
  by the caller succeed, so that a resolution through a binding in it invokes the factory and
  caches the result. In the code \<^verbatim>\<open>NamedScope.__init__\<close> never creates
  \<^verbatim>\<open>instances\<close>: on the scope object that \<^verbatim>\<open>named_scope(name)\<close> returns, each of
  the three operations raises \<^verbatim>\<open>AttributeError\<close>, for every key; and
  \<^verbatim>\<open>register\<close> with that object raises \<^verbatim>\<open>TypeError\<close>, so that no binding in
  it comes to exist.
\<close>

theorem named_scope_unusable:
  "is_scope (fst (Di_named_scope name d)) = Inr True \<and>
   contains (fst (Di_named_scope name d)) key (snd (Di_named_scope name d))
     = Inl (AttributeError ''instances'') \<and>
   getitem (fst (Di_named_scope name d)) key (snd (Di_named_scope name d))
     = Inl (AttributeError ''instances'') \<and>
   setitem (fst (Di_named_scope name d)) key v (snd (Di_named_scope name d))
     = Inl (AttributeError ''instances'') \<and>
   Di_register key (Some f) (fst (Di_named_scope name d)) (snd (Di_named_scope name d))
     = (Inl (TypeError ''unhashable type''), snd (Di_named_scope name d))"
  by (simp add: Di_named_scope_def alloc_def NamedScope_init_def contains_def getitem_def
      setitem_def Scope_contains_def Scope_getitem_def Scope_setitem_def Di_register_def
      Registry_add_def ScopeRegistry_resolve_def)

text \<open>
  C9. Claimed: in every container the key \<^verbatim>\<open>"di"\<close> is bound to the container itself.
  \<^verbatim>\<open>Di.__init__\<close> binds nothing; it is the module that registers its own container
  after building it. For the container of the module, at whatever address, in whatever
  process and world: the registration succeeds, the key is bound to
  \<^verbatim>\<open>lambda: di\<close> in the singleton scope, and \<^verbatim>\<open>resolve("di")\<close> returns the
  container.
\<close>

theorem module_di_resolves_itself:
  "fst (module_di self p w) = Inr () \<and>
   factories (snd (module_di self p w)) (Str ''di'') = Some (Lambda (Obj self), Cls SingletonScope) \<and>
   fst (Di_resolve call (Str ''di'') [] False (snd (module_di self p w))) = Inr (Value (Obj self))"
  by (simp add: module_di_def Di_init_state run_defs)

text \<open>The claim as it was stated fails for a container that \<^verbatim>\<open>Di()\<close> has just
  built: the key is not bound, and resolving it raises \<^verbatim>\<open>KeyError\<close>.\<close>

theorem new_container_has_no_di:
  "factories empty_di (Str ''di'') = None \<and>
   fst (Di_resolve new_object (Str ''di'') [] False empty_di) = Inl (KeyError ''di'')"
  by (simp add: empty_di_eq run_defs)

text \<open>
  C10. A call of \<^verbatim>\<open>resolve\<close>, whatever its arguments and whether it returns or raises,
  leaves the binding table and the declared dependencies as they were. For one key
  \<^verbatim>\<open>resolve(k)\<close>, the store of scope objects changes at most at the scope object that
  \<^verbatim>\<open>ScopeRegistry.get\<close> returns for the scope of the key's binding; an object that
  existed before keeps its class and its name, so that only its instances change; and the
  lookup table changes at most by the entry of that scope's class, which it did not have.
\<close>

theorem resolve_frame:
  "factories (snd (Di_resolve call key_or_keys more_keys with_keys d)) = factories d \<and>
   depends_obj (snd (Di_resolve call key_or_keys more_keys with_keys d)) = depends_obj d \<and>
   (\<forall>a. heap (snd (Di_resolve call (Str k) [] with_keys d)) a = heap d a \<or>
        (\<exists>f s. Registry_get (Str k) d = Inr (f, s) \<and>
               fst (ScopeRegistry_get s d) = Inr (Inst a))) \<and>
   (\<forall>a. a < next_addr d \<longrightarrow>
        cls (heap (snd (Di_resolve call (Str k) [] with_keys d)) a) = cls (heap d a) \<and>
        name_attr (heap (snd (Di_resolve call (Str k) [] with_keys d)) a) = name_attr (heap d a)) \<and>
   (\<forall>x. lookup (snd (Di_resolve call (Str k) [] with_keys d)) x = lookup d x \<or>
        (\<exists>f s. Registry_get (Str k) d = Inr (f, s) \<and>
               ScopeRegistry_resolve s d = Inr x \<and> lookup d x = None))"
proof (intro conjI allI impI)
  show "factories (snd (Di_resolve call key_or_keys more_keys with_keys d)) = factories d"
    by (simp add: Di_resolve_tables)
  show "depends_obj (snd (Di_resolve call key_or_keys more_keys with_keys d)) = depends_obj d"
    by (simp add: Di_resolve_tables)
next
  fix a
  show "heap (snd (Di_resolve call (Str k) [] with_keys d)) a = heap d a \<or>
        (\<exists>f s. Registry_get (Str k) d = Inr (f, s) \<and> fst (ScopeRegistry_get s d) = Inr (Inst a))"
  proof (cases "Registry_get (Str k) d")
    case (Inl e)
    then show ?thesis by (simp add: Di_resolve_single_snd resolve_one_unbound)
  next
    case (Inr b)
    obtain f s where b: "Registry_get (Str k) d = Inr (f, s)" using Inr by (cases b) simp
    show ?thesis using b resolve_one_heap[OF b, of a call]
      by (auto simp: Di_resolve_single_snd)
  qed
next
  fix a assume "a < next_addr d"
  then show "cls (heap (snd (Di_resolve call (Str k) [] with_keys d)) a) = cls (heap d a)"
    and "name_attr (heap (snd (Di_resolve call (Str k) [] with_keys d)) a) = name_attr (heap d a)"
    by (simp_all add: Di_resolve_single_snd resolve_one_object)
next
  fix x
  show "lookup (snd (Di_resolve call (Str k) [] with_keys d)) x = lookup d x \<or>
        (\<exists>f s. Registry_get (Str k) d = Inr (f, s) \<and> ScopeRegistry_resolve s d = Inr x \<and>
               lookup d x = None)"
  proof (cases "Registry_get (Str k) d")
    case (Inl e)
    then show ?thesis by (simp add: Di_resolve_single_snd resolve_one_unbound)
  next
    case (Inr b)
    obtain f s where b: "Registry_get (Str k) d = Inr (f, s)" using Inr by (cases b) simp
    show ?thesis
    proof (cases "ScopeRegistry_resolve s d = Inr x \<and> lookup d x = None")
      case True
      then show ?thesis using b by simp
    next
      case False
      then show ?thesis using resolve_one_lookup[OF b False, of call]
        by (simp add: Di_resolve_single_snd)
    qed
  qed
qed

text \<open>The theorem at work: in the example run \<open>rebound\<close> the singleton scope object is at
  address 0, and resolving \<^verbatim>\<open>'k'\<close> once more leaves the tables, its class and its name
  as they were.\<close>

theorem resolve_frame_witness:
  "(0::nat) < next_addr rebound \<and>
   factories (snd (Di_resolve new_object (Str ''k'') [] False rebound)) = factories rebound \<and>
   depends_obj (snd (Di_resolve new_object (Str ''k'') [] False rebound)) = depends_obj rebound \<and>
   cls (heap (snd (Di_resolve new_object (Str ''k'') [] False rebound)) 0) = cls (heap rebound 0) \<and>
   name_attr (heap (snd (Di_resolve new_object (Str ''k'') [] False rebound)) 0) =
     name_attr (heap rebound 0)"
proof -
  have h: "(0::nat) < next_addr rebound" by (simp add: rebound_eq)
  show ?thesis
    using h resolve_frame[of new_object "Str ''k''" "[]" False rebound "''k''"] by blast
qed

end
